theory Spec2Isabelle
  imports Main "HOL-Library.Sublist"
begin

section \<open>The databases as the copy functions of fast\_etl.py see them\<close>

text \<open>
  A row of a table is its key column and the rest of its columns. The destination is
  a table with a committed content and the content the open transaction sees
  (\<open>working\<close>): the destination connection runs with autocommit off, so a
  TRUNCATE or an INSERT is visible in \<open>working\<close> only, until \<open>commit\<close> copies it
  to \<open>committed\<close>. Closing a connection drops what was not committed.

  Every call to a database driver can raise. Which call raises is decided by the
  environment: \<open>fails env n op\<close> says that the driver call \<open>op\<close> raises when \<open>n\<close>
  driver calls were made before it. The world counts the driver calls (\<open>clock\<close>)
  and keeps a log of them and of the lines the functions print.
\<close>

type_synonym row = "int \<times> string"

datatype provider = MSSQL | PG | MYSQL

datatype site = AfterTruncate | InLoop | AtEnd

datatype op =
    DstTruncate
  | DstCommit site
  | DstExecutemany
  | SrcExecute
  | SrcFetchmany
  | SrcSelect int int
  | SrcMaxId

datatype event =
    EvTruncate
  | EvCommit
  | EvExecutemany nat
  | EvExecute
  | EvFetchmany nat
  | EvSelect int int nat
  | EvMaxId int
  | EvRaised op
  | ErroOrigem int int
  | ErroDestino int int
  | LinhasInseridas nat
  | TentandoRetry int
  | TerminoSucesso
  | TerminoErro int

datatype exn = DbError op | TypeError

record world =
  committed :: "row list"
  working :: "row list"
  clock :: nat
  log :: "event list"

record env =
  source :: "row list"
  fails :: "nat \<Rightarrow> op \<Rightarrow> bool"

definition connect :: "world \<Rightarrow> world" where
  "connect w = w\<lparr>working := committed w\<rparr>"

definition close :: "world \<Rightarrow> world" where
  "close w = w\<lparr>working := committed w\<rparr>"

text \<open>A driver call is counted and logged; a line printed is logged only.\<close>

definition step :: "event \<Rightarrow> world \<Rightarrow> world" where
  "step ev w = w\<lparr>clock := Suc (clock w), log := log w @ [ev]\<rparr>"

definition say :: "event \<Rightarrow> world \<Rightarrow> world" where
  "say ev w = w\<lparr>log := log w @ [ev]\<rparr>"

text \<open>A call returns \<open>Inr\<close> its value and the world after it, or \<open>Inl\<close> the exception
  it raised and the world at that moment.\<close>

type_synonym 'a result = "(exn \<times> world) + ('a \<times> world)"

definition raised :: "op \<Rightarrow> world \<Rightarrow> 'a result" where
  "raised p w = Inl (DbError p, step (EvRaised p) w)"

definition truncate_table :: "env \<Rightarrow> world \<Rightarrow> unit result" where
  "truncate_table env w =
     (if fails env (clock w) DstTruncate then raised DstTruncate w
      else Inr ((), (step EvTruncate w)\<lparr>working := []\<rparr>))"

text \<open>A commit; \<open>at\<close> says which commit of the function it is, for the environment
  to tell them apart.\<close>

definition commit :: "env \<Rightarrow> site \<Rightarrow> world \<Rightarrow> unit result" where
  "commit env at w =
     (if fails env (clock w) (DstCommit at) then raised (DstCommit at) w
      else Inr ((), (step EvCommit w)\<lparr>committed := working w\<rparr>))"

definition executemany :: "env \<Rightarrow> row list \<Rightarrow> world \<Rightarrow> unit result" where
  "executemany env rows w =
     (if fails env (clock w) DstExecutemany then raised DstExecutemany w
      else Inr ((), (step (EvExecutemany (length rows)) w)\<lparr>working := working w @ rows\<rparr>))"

text \<open>\<open>source_cur.execute(select_sql)\<close>: the cursor holds the whole result set.\<close>

definition execute :: "env \<Rightarrow> world \<Rightarrow> (row list) result" where
  "execute env w =
     (if fails env (clock w) SrcExecute then raised SrcExecute w
      else Inr (source env, step EvExecute w))"

text \<open>\<open>source_cur.fetchmany(chunksize)\<close>: the next rows of the cursor, at most
  \<open>chunksize\<close> of them, and the cursor after them.\<close>

definition fetchmany :: "env \<Rightarrow> nat \<Rightarrow> row list \<Rightarrow> world \<Rightarrow> (row list \<times> row list) result" where
  "fetchmany env chunksize cur w =
     (if fails env (clock w) SrcFetchmany then raised SrcFetchmany w
      else Inr ((take chunksize cur, drop chunksize cur),
                step (EvFetchmany (length (take chunksize cur))) w))"

text \<open>Leaving the \<open>with\<close> blocks closes both connections, on every path.\<close>

definition closing :: "'a result \<Rightarrow> 'a result" where
  "closing r = (case r of Inl (e, w) \<Rightarrow> Inl (e, close w) | Inr (x, w) \<Rightarrow> Inr (x, close w))"

section \<open>copy\_db\_to\_db\<close>

text \<open>
  The model starts where both connections and cursors are open and the statements
  are built, at the comment \<open># truncate stg\<close> of the source. The loop,
  \<^verbatim>\<open>while rows: executemany(insert, rows); rows_inserted += len(rows); rows = fetchmany(chunksize)\<close>,
  has no try block: a driver call that raises ends the function with that exception.
  The lines printed and the time measured are left out.
\<close>

function copy_loop ::
  "env \<Rightarrow> nat \<Rightarrow> row list \<Rightarrow> row list \<Rightarrow> nat \<Rightarrow> world \<Rightarrow> nat result" where
  "copy_loop env chunksize rows cur rows_inserted w =
     (if rows \<noteq> [] then
        (case executemany env rows w of
           Inl ew \<Rightarrow> Inl ew
         | Inr (_, w1) \<Rightarrow>
            (case fetchmany env chunksize cur w1 of
               Inl ew \<Rightarrow> Inl ew
             | Inr ((rows', cur'), w2) \<Rightarrow>
                 copy_loop env chunksize rows' cur' (rows_inserted + length rows) w2))
      else Inr (rows_inserted, w))"
  by pat_completeness auto
termination
  by (relation "measure (\<lambda>(env, chunksize, rows, cur, rows_inserted, w). length rows + length cur)")
     (auto simp: fetchmany_def raised_def min_def neq_Nil_conv split: if_splits)

declare copy_loop.simps [simp del]

definition copy_db_to_db :: "env \<Rightarrow> provider \<Rightarrow> bool \<Rightarrow> nat \<Rightarrow> world \<Rightarrow> nat result" where
  "copy_db_to_db env destination_provider destination_truncate chunksize w0 =
     closing
      (let w = connect w0;
           truncated =
             (if destination_truncate then
                (case truncate_table env w of
                   Inl ew \<Rightarrow> Inl ew
                 | Inr (_, w1) \<Rightarrow>
                     if destination_provider = MSSQL then commit env AfterTruncate w1
                     else Inr ((), w1))
              else Inr ((), w))
       in case truncated of
            Inl ew \<Rightarrow> Inl ew
          | Inr (_, w2) \<Rightarrow>
             (case execute env w2 of
                Inl ew \<Rightarrow> Inl ew
              | Inr (cur, w3) \<Rightarrow>
                 (case fetchmany env chunksize cur w3 of
                    Inl ew \<Rightarrow> Inl ew
                  | Inr ((rows, cur'), w4) \<Rightarrow>
                     (case copy_loop env chunksize rows cur' 0 w4 of
                        Inl ew \<Rightarrow> Inl ew
                      | Inr (rows_inserted, w5) \<Rightarrow>
                         (case commit env AtEnd w5 of
                            Inl ew \<Rightarrow> Inl ew
                          | Inr (_, w6) \<Rightarrow> Inr (rows_inserted, w6))))))"

text \<open>The environment in which no driver call raises.\<close>

definition no_faults :: "env \<Rightarrow> bool" where
  "no_faults env = (\<forall>n p. \<not> fails env n p)"

text \<open>What a run added to the log.\<close>

definition new_events :: "world \<Rightarrow> world \<Rightarrow> event list" where
  "new_events w w' = drop (length (log w)) (log w')"

definition events_of :: "'a result \<Rightarrow> event list" where
  "events_of r = (case r of Inl (e, w) \<Rightarrow> log w | Inr (x, w) \<Rightarrow> log w)"

fun is_executemany :: "event \<Rightarrow> bool" where
  "is_executemany (EvExecutemany n) = True"
| "is_executemany _ = False"

text \<open>The numbers of rows the fetches returned, in order.\<close>

fun fetched :: "event list \<Rightarrow> nat list" where
  "fetched [] = []"
| "fetched (EvFetchmany n # evs) = n # fetched evs"
| "fetched (_ # evs) = fetched evs"

text \<open>The driver calls of the loop on a result set \<open>xs\<close> whose first chunk is fetched
  already: an insert of the chunk in hand, then the fetch of the next one.\<close>

function loop_log :: "nat \<Rightarrow> row list \<Rightarrow> event list" where
  "loop_log C xs =
     (if C = 0 \<or> xs = [] then []
      else [EvExecutemany (length (take C xs)), EvFetchmany (length (take C (drop C xs)))]
           @ loop_log C (drop C xs))"
  by pat_completeness auto
termination
  by (relation "measure (\<lambda>(C, xs). length xs)") auto

declare loop_log.simps [simp del]

definition truncate_log :: "provider \<Rightarrow> bool \<Rightarrow> event list" where
  "truncate_log destination_provider destination_truncate =
     (if destination_truncate
      then (if destination_provider = MSSQL then [EvTruncate, EvCommit] else [EvTruncate])
      else [])"

text \<open>The reading of "a commit at every chunk boundary": no insert is followed by
  another insert before a commit. The flag says that an insert waits for its commit.\<close>

fun commit_per_chunk :: "bool \<Rightarrow> event list \<Rightarrow> bool" where
  "commit_per_chunk waiting [] = (\<not> waiting)"
| "commit_per_chunk waiting (EvExecutemany n # evs) = (\<not> waiting \<and> commit_per_chunk True evs)"
| "commit_per_chunk waiting (EvCommit # evs) = commit_per_chunk False evs"
| "commit_per_chunk waiting (_ # evs) = commit_per_chunk waiting evs"

text \<open>The scenario of the specification: a source of four rows, an empty destination.\<close>

definition four_rows :: "row list" where
  "four_rows = [(1, ''hendrix''), (2, ''nitai''), (3, ''krishna''), (4, ''jesus'')]"

definition calm :: "row list \<Rightarrow> env" where
  "calm rs = \<lparr>source = rs, fails = (\<lambda>n p. False)\<rparr>"

definition fresh :: "row list \<Rightarrow> world" where
  "fresh d = \<lparr>committed = d, working = d, clock = 0, log = []\<rparr>"

section \<open>copy\_by\_key\_interval\<close>

text \<open>
  \<open>select_sql\<close> is \<^verbatim>\<open>SELECT ... WHERE key_column BETWEEN %s AND %s\<close>: the rows of
  the source whose key is in the closed interval, in the order of the table. The
  execute and the fetchall of the source are one driver call here.
\<close>

definition between :: "row list \<Rightarrow> int \<Rightarrow> int \<Rightarrow> row list" where
  "between rs key_begin key_end = filter (\<lambda>r. key_begin \<le> fst r \<and> fst r \<le> key_end) rs"

definition select_between :: "env \<Rightarrow> int \<Rightarrow> int \<Rightarrow> world \<Rightarrow> (row list) result" where
  "select_between env key_begin key_end w =
     (if fails env (clock w) (SrcSelect key_begin key_end)
      then raised (SrcSelect key_begin key_end) w
      else Inr (between (source env) key_begin key_end,
                step (EvSelect key_begin key_end
                        (length (between (source env) key_begin key_end))) w))"

text \<open>\<^verbatim>\<open>select COALESCE(max(key_column),0) FROM source_table\<close>\<close>

definition max_key :: "row list \<Rightarrow> int" where
  "max_key rs = (case rs of [] \<Rightarrow> 0 | r # rs' \<Rightarrow> fold max (map fst rs') (fst r))"

definition get_max_id :: "env \<Rightarrow> world \<Rightarrow> int result" where
  "get_max_id env w =
     (if fails env (clock w) SrcMaxId then raised SrcMaxId w
      else Inr (max_key (source env), step (EvMaxId (max_key (source env))) w))"

text \<open>The block \<open># Tenta ESCREVER no destino\<close>, without its except clause:
  \<^verbatim>\<open>if rows: destination_cur.executemany(insert, rows); destination_conn.commit()\<close>\<close>

definition write_rows :: "env \<Rightarrow> row list \<Rightarrow> world \<Rightarrow> unit result" where
  "write_rows env rows w =
     (if rows \<noteq> [] then
        (case executemany env rows w of
           Inl ew \<Rightarrow> Inl ew
         | Inr (_, w1) \<Rightarrow> commit env InLoop w1)
      else Inr ((), w))"

text \<open>What follows the loop: the commit, the line that prints the rows inserted,
  \<^verbatim>\<open>return True, None\<close>. The time measured and the lines that print it are left out.\<close>

definition finish :: "env \<Rightarrow> nat \<Rightarrow> world \<Rightarrow> (bool \<times> int option) result" where
  "finish env rows_inserted w =
     (case commit env AtEnd w of
        Inl ew \<Rightarrow> Inl ew
      | Inr (_, w1) \<Rightarrow> Inr ((True, None), say (LinhasInseridas rows_inserted) w1))"

text \<open>
  The loop \<^verbatim>\<open>while key_begin <= max_id and max_id > 0\<close>. Each except clause prints
  its line and returns \<^verbatim>\<open>False, key_begin\<close>. With \<open>key_interval \<le> 0\<close> the loop can
  run forever, which is the value \<open>None\<close>. The sleep that depends on the time of
  day is left out.
\<close>

partial_function (option) interval_loop ::
  "env \<Rightarrow> int \<Rightarrow> int \<Rightarrow> int \<Rightarrow> int \<Rightarrow> row list \<Rightarrow> nat \<Rightarrow> world
     \<Rightarrow> ((bool \<times> int option) result) option" where
  "interval_loop env key_interval max_id key_begin key_end rows rows_inserted w =
     (if key_begin \<le> max_id \<and> max_id > 0 then
        (case write_rows env rows w of
           Inl (e, w') \<Rightarrow>
             Some (Inr ((False, Some key_begin), say (ErroDestino key_begin key_end) w'))
         | Inr (_, w2) \<Rightarrow>
            (case select_between env (key_end + 1) (key_end + 1 + key_interval - 1) w2 of
               Inl (e, w') \<Rightarrow>
                 Some (Inr ((False, Some (key_end + 1)),
                            say (ErroOrigem (key_end + 1) (key_end + 1 + key_interval - 1)) w'))
             | Inr (rows', w3) \<Rightarrow>
                 interval_loop env key_interval max_id
                   (key_end + 1) (key_end + 1 + key_interval - 1)
                   rows' (rows_inserted + length rows) w3))
      else Some (finish env rows_inserted w))"

declare interval_loop.simps [code]

text \<open>
  The function, from the comment \<open># truncate stg\<close> on: connections and cursors are
  open and the statements are built. The truncate, its commit, the query of the
  maximum and the last commit are outside every try block.
\<close>

text \<open>The block \<open># truncate stg\<close>:
  \<^verbatim>\<open>if destination_truncate: destination_cur.execute(truncate); destination_cur.commit()\<close>\<close>

definition truncate_stg :: "env \<Rightarrow> bool \<Rightarrow> world \<Rightarrow> unit result" where
  "truncate_stg env destination_truncate w =
     (if destination_truncate then
        (case truncate_table env w of
           Inl ew \<Rightarrow> Inl ew
         | Inr (_, w1) \<Rightarrow> commit env AfterTruncate w1)
      else Inr ((), w))"

definition copy_by_key_interval ::
  "env \<Rightarrow> int \<Rightarrow> int \<Rightarrow> bool \<Rightarrow> world \<Rightarrow> ((bool \<times> int option) result) option" where
  "copy_by_key_interval env key_start key_interval destination_truncate w0 =
     map_option closing
      (case truncate_stg env destination_truncate (connect w0) of
         Inl ew \<Rightarrow> Some (Inl ew)
       | Inr (_, w2) \<Rightarrow>
          (let key_begin = key_start;
               key_end = key_begin + key_interval - 1
           in case select_between env key_begin key_end w2 of
                Inl (e, w') \<Rightarrow>
                  Some (Inr ((False, Some key_begin), say (ErroOrigem key_begin key_end) w'))
              | Inr (rows, w3) \<Rightarrow>
                 (case get_max_id env w3 of
                    Inl ew \<Rightarrow> Some (Inl ew)
                  | Inr (max_id, w4) \<Rightarrow>
                      interval_loop env key_interval max_id key_begin key_end rows 0 w4)))"

text \<open>
  The rows a run without failure writes when it starts at \<open>b\<close>: those of the interval
  at \<open>b\<close>, then those of the run that starts at the next interval.
\<close>

function copied :: "row list \<Rightarrow> int \<Rightarrow> int \<Rightarrow> int \<Rightarrow> row list" where
  "copied src S m b =
     (if 0 < S \<and> b \<le> m \<and> 0 < m then between src b (b + S - 1) @ copied src S m (b + S)
      else [])"
  by pat_completeness auto
termination
  by (relation "measure (\<lambda>(src, S, m, b). nat (m + 1 - b))") auto

declare copied.simps [simp del]

text \<open>
  What a result says of the destination, \<open>base\<close> being its content when the first
  interval was read: a success has written all of \<open>copied\<close>; a failure that returns
  the key \<open>k\<close> has written the part of \<open>copied\<close> that a run from \<open>k\<close> does not write.
\<close>

definition resumable ::
  "row list \<Rightarrow> int \<Rightarrow> int \<Rightarrow> int \<Rightarrow> row list \<Rightarrow> (bool \<times> int option) result \<Rightarrow> bool" where
  "resumable src S m b base r =
     (case r of
        Inl (e, w') \<Rightarrow> True
      | Inr ((ok, next_key), w') \<Rightarrow>
          if ok then next_key = None \<and> committed w' = base @ copied src S m b
          else (\<exists>k pre. next_key = Some k \<and> committed w' = base @ pre
                  \<and> copied src S m b = pre @ copied src S m k))"

text \<open>A source of two rows in two intervals of ten keys, and an environment in which
  the read of the interval from 10 to 19 raises.\<close>

definition two_rows :: "row list" where
  "two_rows = [(1, ''a''), (12, ''b'')]"

definition stormy :: "row list \<Rightarrow> env" where
  "stormy rs = \<lparr>source = rs, fails = (\<lambda>n p. p = SrcSelect 10 19)\<rparr>"

text \<open>An environment in which every insert into the destination raises.\<close>

definition unwritable :: "row list \<Rightarrow> env" where
  "unwritable rs = \<lparr>source = rs, fails = (\<lambda>n p. p = DstExecutemany)\<rparr>"

text \<open>The intervals of the bounded SELECTs of a log, in order.\<close>

fun selects :: "event list \<Rightarrow> (int \<times> int) list" where
  "selects [] = []"
| "selects (EvSelect b e n # evs) = (b, e) # selects evs"
| "selects (_ # evs) = selects evs"

definition last_select :: "event list \<Rightarrow> (int \<times> int) option" where
  "last_select evs = (if selects evs = [] then None else Some (last (selects evs)))"

text \<open>No call outside the try blocks of copy\_by\_key\_interval raises.\<close>

definition outside_try_ok :: "env \<Rightarrow> bool" where
  "outside_try_ok env =
     (\<forall>n. \<not> fails env n DstTruncate \<and> \<not> fails env n (DstCommit AfterTruncate)
          \<and> \<not> fails env n SrcMaxId \<and> \<not> fails env n (DstCommit AtEnd))"

text \<open>The driver calls of a log that raised, in order.\<close>

fun raises :: "event list \<Rightarrow> op list" where
  "raises [] = []"
| "raises (EvRaised p # evs) = p # raises evs"
| "raises (_ # evs) = raises evs"

text \<open>
  What the log of a run shows for the pair the run returns. A success returns no
  key, and no call of the run raised. A failure returns a key \<open>k\<close>; the run ends with
  a call that raised, the only one that did, and the line printed for it, which
  names the interval \<open>[k, k + S - 1]\<close>: either the read of that interval raised, or
  the insert or the commit of its rows, that interval being the last one read.
\<close>

definition reported :: "int \<Rightarrow> event list \<Rightarrow> bool \<times> int option \<Rightarrow> bool" where
  "reported S evs st =
     (case st of
        (True, next_key) \<Rightarrow> next_key = None \<and> raises evs = []
      | (False, None) \<Rightarrow> False
      | (False, Some k) \<Rightarrow>
          (case rev evs of
             ErroOrigem b e # EvRaised p # rest \<Rightarrow>
               b = k \<and> e = k + S - 1 \<and> p = SrcSelect k (k + S - 1)
               \<and> raises (rev rest) = []
           | ErroDestino b e # EvRaised p # rest \<Rightarrow>
               b = k \<and> e = k + S - 1 \<and> (p = DstExecutemany \<or> p = DstCommit InLoop)
               \<and> last_select (rev rest) = Some (k, k + S - 1)
               \<and> raises (rev rest) = []
           | _ \<Rightarrow> False))"

text \<open>A run that did not raise, with its report, and that succeeded if no call raised.\<close>

definition outcome :: "env \<Rightarrow> int \<Rightarrow> nat \<Rightarrow> (bool \<times> int option) result \<Rightarrow> bool" where
  "outcome env S n0 r =
     (case r of
        Inl ew \<Rightarrow> False
      | Inr (st, w') \<Rightarrow> n0 \<le> length (log w') \<and> reported S (drop n0 (log w')) st
                        \<and> (no_faults env \<longrightarrow> fst st))"

text \<open>The number of turns of the loop of a run without failure that starts at \<open>b\<close>.\<close>

function turns :: "int \<Rightarrow> int \<Rightarrow> int \<Rightarrow> nat" where
  "turns S m b = (if 0 < S \<and> b \<le> m \<and> 0 < m then Suc (turns S m (b + S)) else 0)"
  by pat_completeness auto
termination
  by (relation "measure (\<lambda>(S, m, b). nat (m + 1 - b))") auto

declare turns.simps [simp del]

text \<open>The \<open>i\<close>-th interval of size \<open>S\<close> from \<open>key_start\<close>, and the rows of an interval.\<close>

definition interval :: "int \<Rightarrow> int \<Rightarrow> nat \<Rightarrow> int \<times> int" where
  "interval S key_start i = (key_start + int i * S, key_start + int i * S + S - 1)"

definition rows_of :: "row list \<Rightarrow> int \<times> int \<Rightarrow> row list" where
  "rows_of src iv = between src (fst iv) (snd iv)"

text \<open>The scenario of the specification: the greatest key of the source is 25.\<close>

definition keys_to_25 :: "row list" where
  "keys_to_25 = [(3, ''a''), (14, ''b''), (25, ''c'')]"

section \<open>copy\_by\_key\_with\_retry\<close>

text \<open>
  The loop \<^verbatim>\<open>while not succeeded and (retry <= retries)\<close>: it prints its two lines,
  sleeps, and calls copy\_by\_key\_interval again from \<open>next_key\<close> without truncation.
  An exception of copy\_by\_key\_interval is not caught. A call with the key \<open>None\<close>
  would raise a TypeError at \<^verbatim>\<open>key_begin + key_interval - 1\<close>. The sleep is left out.
\<close>

function retry_loop ::
  "env \<Rightarrow> int \<Rightarrow> int \<Rightarrow> int \<Rightarrow> bool \<Rightarrow> int option \<Rightarrow> world \<Rightarrow> (unit result) option" where
  "retry_loop env key_interval retries retry succeeded next_key w =
     (if \<not> succeeded \<and> retry \<le> retries then
        (let w1 = say (TentandoRetry (retry + 1)) w in
         case next_key of
           None \<Rightarrow> Some (Inl (TypeError, w1))
         | Some k \<Rightarrow>
            (case copy_by_key_interval env k key_interval False w1 of
               None \<Rightarrow> None
             | Some (Inl ew) \<Rightarrow> Some (Inl ew)
             | Some (Inr ((succeeded', next_key'), w')) \<Rightarrow>
                 retry_loop env key_interval retries (retry + 1) succeeded' next_key' w'))
      else Some (Inr ((), say (if succeeded then TerminoSucesso else TerminoErro retries) w)))"
  by pat_completeness auto
termination
  by (relation "measure (\<lambda>(env, key_interval, retries, retry, succeeded, next_key, w).
                   nat (retries + 1 - retry))") auto

declare retry_loop.simps [simp del]

definition copy_by_key_with_retry ::
  "env \<Rightarrow> int \<Rightarrow> int \<Rightarrow> bool \<Rightarrow> int \<Rightarrow> world \<Rightarrow> (unit result) option" where
  "copy_by_key_with_retry env key_start key_interval destination_truncate retries w =
     (case copy_by_key_interval env key_start key_interval destination_truncate w of
        None \<Rightarrow> None
      | Some (Inl ew) \<Rightarrow> Some (Inl ew)
      | Some (Inr ((succeeded, next_key), w')) \<Rightarrow>
          retry_loop env key_interval retries 0 succeeded next_key w')"

text \<open>The calls of copy\_by\_key\_interval that a log of copy\_by\_key\_with\_retry shows:
  the first one, and one after each line \<open>Tentando retry\<close>.\<close>

fun attempts :: "event list \<Rightarrow> nat" where
  "attempts [] = 1"
| "attempts (TentandoRetry n # evs) = Suc (attempts evs)"
| "attempts (_ # evs) = attempts evs"

text \<open>The environment in which every read of an interval raises.\<close>

definition unreadable :: "row list \<Rightarrow> env" where
  "unreadable rs = \<lparr>source = rs, fails = (\<lambda>n p. case p of SrcSelect b e \<Rightarrow> True | _ \<Rightarrow> False)\<rparr>"

section \<open>sync\_db\_2\_db\<close>

text \<open>
  sync\_db\_2\_db builds SQL statements and sends them to two hooks. The model keeps the
  text of every statement and the order of the calls. What a query returns is given
  by the environment: \<open>get_first db h sql\<close> is the first column of the first row that
  the hook \<open>h\<close> returns for \<open>sql\<close>, \<open>get_records db h sql\<close> the first column of every
  row, \<open>table_cols db\<close> the columns of the destination table.
\<close>

record datetime =
  year :: nat
  month :: nat
  day :: nat
  hour :: nat
  minute :: nat
  second :: nat
  microsecond :: nat

datatype dbvalue = VNone | VInt int | VDatetime datetime | VStr string

datatype exc = Exception string | AttributeError

datatype hook = Source | Dest

datatype call =
    GetTableColsName string string
  | GetFirst hook string
  | GetRecords hook string
  | Run hook string
  | CopyDbToDb string string provider bool nat

record db =
  conn_type :: string
  table_cols :: "string list"
  get_first :: "hook \<Rightarrow> string \<Rightarrow> dbvalue"
  get_records :: "hook \<Rightarrow> string \<Rightarrow> dbvalue list"

text \<open>The line break and the indentation of the statements written over several lines.\<close>

definition nl :: string where
  "nl = [CHR 0x0A]"

definition sp :: "nat \<Rightarrow> string" where
  "sp n = replicate n (CHR '' '')"

text \<open>\<^verbatim>\<open>sep.join(xs)\<close>\<close>

fun join :: "string \<Rightarrow> string list \<Rightarrow> string" where
  "join sep [] = []"
| "join sep [x] = x"
| "join sep (x # y # ys) = x @ sep @ join sep (y # ys)"

text \<open>Integers in decimal, as \<^verbatim>\<open>str\<close> and the format codes of strftime print them.\<close>

definition digit :: "nat \<Rightarrow> char" where
  "digit d = ''0123456789'' ! d"

function show_nat :: "nat \<Rightarrow> string" where
  "show_nat n = (if n < 10 then [digit n] else show_nat (n div 10) @ [digit (n mod 10)])"
  by pat_completeness auto
termination
  by (relation "measure id") auto

declare show_nat.simps [simp del]

definition show_int :: "int \<Rightarrow> string" where
  "show_int i = (if i < 0 then ''-'' @ show_nat (nat (- i)) else show_nat (nat i))"

definition zfill :: "nat \<Rightarrow> string \<Rightarrow> string" where
  "zfill width s = replicate (width - length s) (CHR ''0'') @ s"

text \<open>
  \<^verbatim>\<open>strftime('%Y-%m-%d %H:%M:%S.%f')\<close> and \<^verbatim>\<open>[:-3]\<close>. The month, day, hour, minute and
  second are printed on two digits and the microsecond on six. \<^verbatim>\<open>%Y\<close> is printed
  by the C library, which on Linux does not pad it: the year 999 is \<open>999\<close>, the year 1
  is \<open>1\<close>.
\<close>

definition month_to_second :: "datetime \<Rightarrow> string" where
  "month_to_second d =
     zfill 2 (show_nat (month d)) @ ''-'' @ zfill 2 (show_nat (day d)) @ '' ''
     @ zfill 2 (show_nat (hour d)) @ '':'' @ zfill 2 (show_nat (minute d)) @ '':''
     @ zfill 2 (show_nat (second d))"

definition date_time :: "datetime \<Rightarrow> string" where
  "date_time d = show_nat (year d) @ ''-'' @ month_to_second d"

definition strftime :: "datetime \<Rightarrow> string" where
  "strftime d = date_time d @ ''.'' @ zfill 6 (show_nat (microsecond d))"

text \<open>\<^verbatim>\<open>str(d)\<close> of a datetime is \<^verbatim>\<open>d.isoformat(sep=' ')\<close>: the year on four digits, and
  the microsecond only when it is not zero.\<close>

definition isoformat :: "datetime \<Rightarrow> string" where
  "isoformat d =
     zfill 4 (show_nat (year d)) @ ''-'' @ month_to_second d
     @ (if microsecond d = 0 then [] else ''.'' @ zfill 6 (show_nat (microsecond d)))"

definition but_last3 :: "string \<Rightarrow> string" where
  "but_last3 s = take (length s - 3) s"

text \<open>\<^verbatim>\<open>str(value)\<close> of a value read from the database.\<close>

definition str :: "dbvalue \<Rightarrow> string" where
  "str v =
     (case v of
        VNone \<Rightarrow> ''None''
      | VInt i \<Rightarrow> show_int i
      | VStr s \<Rightarrow> s
      | VDatetime d \<Rightarrow> isoformat d)"

text \<open>A parameter that is a string or \<open>None\<close>: its truth value in an \<^verbatim>\<open>if\<close>, and the
  text an f-string gives it.\<close>

definition truthy :: "string option \<Rightarrow> bool" where
  "truthy s = (case s of None \<Rightarrow> False | Some x \<Rightarrow> x \<noteq> [])"

definition fmt :: "string option \<Rightarrow> string" where
  "fmt s = (case s of None \<Rightarrow> ''None'' | Some x \<Rightarrow> x)"

definition build_select_sql :: "string \<Rightarrow> string list \<Rightarrow> string" where
  "build_select_sql source_table column_list =
     ''SELECT '' @ join '', '' column_list @ '' FROM '' @ source_table"

text \<open>The statement of \_table\_rows\_count.\<close>

definition table_rows_count_sql :: "string \<Rightarrow> string option \<Rightarrow> string" where
  "table_rows_count_sql table where_condition =
     ''SELECT COUNT(*) FROM '' @ table
     @ (case where_condition of Some c \<Rightarrow> '' WHERE '' @ c @ '';'' | None \<Rightarrow> '';'')"

text \<open>\_build\_filter\_condition: the statement it sends, then the function itself.
  \<^verbatim>\<open>max_value.strftime\<close> raises AttributeError when the value is not a date.\<close>

definition build_filter_sql :: "string \<Rightarrow> string option \<Rightarrow> string \<Rightarrow> string" where
  "build_filter_sql table date_column key_column =
     (if truthy date_column then ''SELECT MAX('' @ fmt date_column @ '') FROM '' @ table
      else ''SELECT MAX('' @ key_column @ '') FROM '' @ table)"

definition build_filter_condition ::
  "(string \<Rightarrow> dbvalue) \<Rightarrow> string \<Rightarrow> string option \<Rightarrow> string \<Rightarrow> exc + (string \<times> string)" where
  "build_filter_condition dest_get_first table date_column key_column =
     (let sql = build_filter_sql table date_column key_column;
          max_value = dest_get_first sql
      in if truthy date_column then
           (case max_value of
              VDatetime d \<Rightarrow>
                (let max_value' = but_last3 (strftime d)
                 in Inr (max_value', fmt date_column @ '' > '' @ [CHR 0x27] @ max_value' @ [CHR 0x27]))
            | _ \<Rightarrow> Inl AttributeError)
         else
           (let max_value' = str max_value
            in Inr (max_value', key_column @ '' > '' @ [CHR 0x27] @ max_value' @ [CHR 0x27])))"

text \<open>\_build\_incremental\_sqls\<close>

definition build_incremental_sqls ::
  "string \<Rightarrow> string \<Rightarrow> string \<Rightarrow> string list \<Rightarrow> string \<times> string" where
  "build_incremental_sqls dest_table source_table key_column column_list =
     (let cols = join '', '' (map (\<lambda>col. col @ '' = orig.'' @ col) column_list);
          updates_sql =
            nl @ sp 12 @ ''UPDATE '' @ dest_table @ '' SET '' @ cols @ nl
            @ sp 12 @ ''FROM '' @ source_table @ '' orig'' @ nl
            @ sp 12 @ ''WHERE orig.'' @ key_column @ '' = '' @ dest_table @ ''.'' @ key_column @ nl
            @ sp 12;
          cols' = join '', '' column_list;
          inserts_sql =
            ''INSERT INTO '' @ dest_table @ '' ('' @ cols' @ '')'' @ nl
            @ sp 12 @ ''SELECT '' @ cols' @ nl
            @ sp 12 @ ''FROM '' @ source_table @ '' AS inc'' @ nl
            @ sp 12 @ ''WHERE NOT EXISTS'' @ nl
            @ sp 12 @ ''(SELECT 1 FROM '' @ dest_table @ '' AS atual'' @ nl
            @ sp 16 @ ''WHERE atual.'' @ key_column @ '' = inc.'' @ key_column @ '')'' @ nl
            @ sp 12
      in (updates_sql, inserts_sql))"

definition inc_table :: "string \<Rightarrow> string option \<Rightarrow> string \<Rightarrow> string" where
  "inc_table destination_schema increment_schema table =
     (if truthy increment_schema then fmt increment_schema @ ''.'' @ table
      else destination_schema @ ''.'' @ table @ ''_alteracoes'')"

definition reindex_sql :: "string \<Rightarrow> string \<Rightarrow> string" where
  "reindex_sql conn inc_table_name =
     (if conn = ''mssql'' then ''ALTER INDEX ALL ON '' @ inc_table_name @ '' REBUILD''
      else ''REINDEX TABLE '' @ inc_table_name)"

text \<open>The block \<^verbatim>\<open>if sync_exclusions:\<close> of sync\_db\_2\_db: the calls it makes.\<close>

definition delete_exclusions ::
  "db \<Rightarrow> string \<Rightarrow> string \<Rightarrow> string option \<Rightarrow> string option \<Rightarrow> string option \<Rightarrow> string
     \<Rightarrow> call list" where
  "delete_exclusions db dest_table_name key_column source_exc_schema source_exc_table
       source_exc_column ref_value =
     (let source_exc_sql =
            ''SELECT '' @ key_column @ nl
            @ sp 29 @ ''FROM '' @ fmt source_exc_schema @ ''.'' @ fmt source_exc_table @ nl
            @ sp 29 @ ''WHERE '' @ fmt source_exc_column @ '' > ''
            @ [CHR 0x27] @ ref_value @ [CHR 0x27] @ nl
            @ sp 26;
          ids_to_del = get_records db Source source_exc_sql
      in if ids_to_del \<noteq> [] then
           (let ids = join '', '' (map str ids_to_del);
                sql = nl @ sp 16 @ ''DELETE FROM '' @ dest_table_name @ nl
                      @ sp 16 @ ''WHERE '' @ key_column @ '' IN ('' @ ids @ '')'' @ nl @ sp 12
            in [GetRecords Source source_exc_sql, Run Dest sql])
         else [GetRecords Source source_exc_sql])"

text \<open>
  sync\_db\_2\_db, with the calls it makes in their order. A connection type other than
  mssql and postgres makes get\_table\_cols\_name raise. The exceptions of the database
  drivers and the lines printed are left out.
\<close>

definition sync_db_2_db ::
  "db \<Rightarrow> string \<Rightarrow> string option \<Rightarrow> string \<Rightarrow> string \<Rightarrow> string \<Rightarrow> string option \<Rightarrow> bool
     \<Rightarrow> string option \<Rightarrow> string option \<Rightarrow> string option \<Rightarrow> nat \<Rightarrow> (exc + unit) \<times> call list" where
  "sync_db_2_db db table date_column key_column source_schema destination_schema
       increment_schema sync_exclusions source_exc_schema source_exc_table source_exc_column
       chunksize =
     (let source_table_name = source_schema @ ''.'' @ table;
          dest_table_name = destination_schema @ ''.'' @ table;
          inc_table_name = inc_table destination_schema increment_schema table
      in if conn_type db \<noteq> ''mssql'' \<and> conn_type db \<noteq> ''postgres''
         then (Inl (Exception ''Conn_type not implemented.''), [])
         else
          (let destination_provider = (if conn_type db = ''mssql'' then MSSQL else PG);
               col_list = table_cols db;
               count_sql = table_rows_count_sql dest_table_name None;
               dest_rows_count = get_first db Dest count_sql;
               counted = [GetTableColsName destination_schema table, GetFirst Dest count_sql]
           in if dest_rows_count = VInt 0
              then (Inl (Exception ''Tabela destino vazia! Utilize carga full!''), counted)
              else
               (let filtered =
                      counted @ [GetFirst Dest
                                   (build_filter_sql dest_table_name date_column key_column)]
                in case build_filter_condition (get_first db Dest) dest_table_name
                          date_column key_column of
                     Inl e \<Rightarrow> (Inl e, filtered)
                   | Inr (ref_value, where_condition) \<Rightarrow>
                      (let select_sql = build_select_sql source_table_name col_list;
                           select_diff = select_sql @ '' WHERE '' @ where_condition;
                           staged =
                             filtered
                             @ [GetFirst Source
                                  (table_rows_count_sql source_table_name (Some where_condition)),
                                CopyDbToDb inc_table_name select_diff destination_provider
                                  True chunksize,
                                Run Dest (reindex_sql (conn_type db) inc_table_name)];
                           (updates_sql, inserts_sql) =
                             build_incremental_sqls dest_table_name inc_table_name key_column
                               col_list;
                           merged = staged @ [Run Dest updates_sql, Run Dest inserts_sql]
                       in if sync_exclusions then
                            (Inr (), merged
                               @ delete_exclusions db dest_table_name key_column
                                   source_exc_schema source_exc_table source_exc_column ref_value)
                          else (Inr (), merged)))))"

text \<open>A destination of ten rows whose columns are id and nome, and an empty one;
  a date of the year 2021 and one of the year 999.\<close>

definition old_time :: datetime where
  "old_time = \<lparr>year = 999, month = 3, day = 7, hour = 9, minute = 5, second = 0,
                microsecond = 123456\<rparr>"

definition sample_time :: datetime where
  "sample_time = \<lparr>year = 2021, month = 3, day = 7, hour = 9, minute = 5, second = 0,
                   microsecond = 123456\<rparr>"

definition sample_db :: db where
  "sample_db = \<lparr>conn_type = ''mssql'', table_cols = [''id'', ''nome''],
     get_first = (\<lambda>h sql. if sql = ''SELECT COUNT(*) FROM stg.pessoa;'' then VInt 10
        else if sql = ''SELECT MAX(id) FROM stg.pessoa'' then VInt 42
        else VDatetime sample_time),
     get_records = (\<lambda>h sql. [VInt 3, VInt 14])\<rparr>"

text \<open>A date with its time to the millisecond, the microseconds cut, not rounded.\<close>

definition milliseconds :: "datetime \<Rightarrow> string" where
  "milliseconds d = date_time d @ ''.'' @ zfill 3 (show_nat (microsecond d div 1000))"


definition empty_message :: string where
  "empty_message = ''Tabela destino vazia! Utilize carga full!''"


definition empty_db :: db where
  "empty_db = sample_db\<lparr>get_first := (\<lambda>h sql. VInt 0)\<rparr>"

text \<open>The guard of the INSERT, as \_build\_incremental\_sqls writes it.\<close>

definition not_exists_guard :: "string \<Rightarrow> string \<Rightarrow> string" where
  "not_exists_guard dest_table key_column =
     ''WHERE NOT EXISTS'' @ nl
     @ sp 12 @ ''(SELECT 1 FROM '' @ dest_table @ '' AS atual'' @ nl
     @ sp 16 @ ''WHERE atual.'' @ key_column @ '' = inc.'' @ key_column @ '')''"

text \<open>
  The two statements that \_build\_incremental\_sqls writes, as terms: a column
  written \<open>qualifier.column\<close>, the guard of the INSERT, and the two forms of statement.
  \<open>render\<close> gives the text of a term.
\<close>

type_synonym tuple = "string \<Rightarrow> dbvalue"

type_synonym tables = "string \<Rightarrow> tuple list"

datatype colref = Col string string

datatype guard = NotExists string string colref colref

datatype stmt =
    UpdateFrom string "(string \<times> colref) list" string string colref colref
  | InsertSelect string "string list" "string list" string string guard

fun render_col :: "colref \<Rightarrow> string" where
  "render_col (Col qualifier column) = qualifier @ ''.'' @ column"

fun render_guard :: "guard \<Rightarrow> string" where
  "render_guard (NotExists t a l r) =
     ''WHERE NOT EXISTS'' @ nl
     @ sp 12 @ ''(SELECT 1 FROM '' @ t @ '' AS '' @ a @ nl
     @ sp 16 @ ''WHERE '' @ render_col l @ '' = '' @ render_col r @ '')''"

fun render :: "stmt \<Rightarrow> string" where
  "render (UpdateFrom t sets s a l r) =
     nl @ sp 12 @ ''UPDATE '' @ t @ '' SET ''
     @ join '', '' (map (\<lambda>(c, e). c @ '' = '' @ render_col e) sets) @ nl
     @ sp 12 @ ''FROM '' @ s @ '' '' @ a @ nl
     @ sp 12 @ ''WHERE '' @ render_col l @ '' = '' @ render_col r @ nl
     @ sp 12"
| "render (InsertSelect t cols sel s a g) =
     ''INSERT INTO '' @ t @ '' ('' @ join '', '' cols @ '')'' @ nl
     @ sp 12 @ ''SELECT '' @ join '', '' sel @ nl
     @ sp 12 @ ''FROM '' @ s @ '' AS '' @ a @ nl
     @ sp 12 @ render_guard g @ nl
     @ sp 12"

text \<open>
  What the database does with a statement. A row gives each column a value, \<open>VNone\<close>
  for NULL; a table is the list of its rows. A column \<open>q.c\<close> is read in the rows in
  scope, the innermost first. \<open>=\<close> holds between two values that are equal and not
  NULL.

  \<^verbatim>\<open>UPDATE t SET c = e, ... FROM s a WHERE l = r\<close> gives every row of \<open>t\<close> that some row
  of \<open>s\<close> joins the values of one of the rows that join it, \<open>pick\<close> choosing which one,
  in the columns set; the other rows and columns stay.
  \<^verbatim>\<open>INSERT INTO t (cols) SELECT sel FROM s AS a WHERE NOT EXISTS (SELECT 1 FROM t2 AS a2
  WHERE l = r)\<close> appends to \<open>t\<close>, for every row of \<open>s\<close> that no row of \<open>t2\<close> joins, a row
  with the values of \<open>sel\<close> in the columns \<open>cols\<close> and NULL elsewhere.
\<close>

fun column_value :: "(string \<times> tuple) list \<Rightarrow> colref \<Rightarrow> dbvalue" where
  "column_value scope (Col qualifier column) =
     (case map_of scope qualifier of Some row \<Rightarrow> row column | None \<Rightarrow> VNone)"

definition sql_eq :: "dbvalue \<Rightarrow> dbvalue \<Rightarrow> bool" where
  "sql_eq a b = (a \<noteq> VNone \<and> b \<noteq> VNone \<and> a = b)"

definition assign :: "(string \<times> tuple) list \<Rightarrow> (string \<times> colref) list \<Rightarrow> tuple \<Rightarrow> tuple" where
  "assign scope sets d =
     (\<lambda>c. case map_of sets c of Some e \<Rightarrow> column_value scope e | None \<Rightarrow> d c)"

definition row_of :: "string list \<Rightarrow> dbvalue list \<Rightarrow> tuple" where
  "row_of cols vals = (\<lambda>c. case map_of (zip cols vals) c of Some v \<Rightarrow> v | None \<Rightarrow> VNone)"

fun guard_holds :: "tables \<Rightarrow> (string \<times> tuple) list \<Rightarrow> guard \<Rightarrow> bool" where
  "guard_holds tabs scope (NotExists t a l r) =
     (\<not> list_ex (\<lambda>x. sql_eq (column_value ((a, x) # scope) l) (column_value ((a, x) # scope) r))
          (tabs t))"

fun exec :: "(tuple \<Rightarrow> tuple list \<Rightarrow> tuple) \<Rightarrow> stmt \<Rightarrow> tables \<Rightarrow> tables" where
  "exec pick (UpdateFrom t sets s a l r) tabs =
     tabs(t := map (\<lambda>d. let joined = filter (\<lambda>orig. sql_eq (column_value [(a, orig), (t, d)] l)
                                                      (column_value [(a, orig), (t, d)] r))
                                         (tabs s)
                         in if joined = [] then d
                            else assign [(a, pick d joined), (t, d)] sets d)
                    (tabs t))"
| "exec pick (InsertSelect t cols sel s a g) tabs =
     tabs(t := tabs t @ map (\<lambda>inc. row_of cols (map inc sel))
                          (filter (\<lambda>inc. guard_holds tabs [(a, inc)] g) (tabs s)))"

text \<open>The two statements of \_build\_incremental\_sqls.\<close>

definition updates_stmt :: "string \<Rightarrow> string \<Rightarrow> string \<Rightarrow> string list \<Rightarrow> stmt" where
  "updates_stmt dest_table source_table key_column column_list =
     UpdateFrom dest_table (map (\<lambda>col. (col, Col ''orig'' col)) column_list)
       source_table ''orig'' (Col ''orig'' key_column) (Col dest_table key_column)"

definition inserts_stmt :: "string \<Rightarrow> string \<Rightarrow> string \<Rightarrow> string list \<Rightarrow> stmt" where
  "inserts_stmt dest_table source_table key_column column_list =
     InsertSelect dest_table column_list column_list source_table ''inc''
       (NotExists dest_table ''atual'' (Col ''atual'' key_column) (Col ''inc'' key_column))"

text \<open>
  The merge on the rows of the destination and of the staging table: a row of the
  destination whose key is the key of staging rows takes the tracked columns of
  one of them; a staging row whose key no row of the destination has is appended,
  cut to the tracked columns.
\<close>

definition same_key :: "string \<Rightarrow> tuple \<Rightarrow> tuple \<Rightarrow> bool" where
  "same_key key_column d s = sql_eq (s key_column) (d key_column)"

definition set_columns :: "string list \<Rightarrow> tuple \<Rightarrow> tuple \<Rightarrow> tuple" where
  "set_columns column_list s d = (\<lambda>c. if c \<in> set column_list then s c else d c)"

definition project :: "string list \<Rightarrow> tuple \<Rightarrow> tuple" where
  "project column_list s = (\<lambda>c. if c \<in> set column_list then s c else VNone)"

definition run_updates ::
  "(tuple \<Rightarrow> tuple list \<Rightarrow> tuple) \<Rightarrow> string list \<Rightarrow> string \<Rightarrow> tuple list \<Rightarrow> tuple list
     \<Rightarrow> tuple list" where
  "run_updates pick column_list key_column dest staging =
     map (\<lambda>d. let joined = filter (same_key key_column d) staging
              in if joined = [] then d else set_columns column_list (pick d joined) d) dest"

definition run_inserts :: "string list \<Rightarrow> string \<Rightarrow> tuple list \<Rightarrow> tuple list \<Rightarrow> tuple list" where
  "run_inserts column_list key_column dest staging =
     dest @ map (project column_list)
              (filter (\<lambda>inc. \<not> list_ex (\<lambda>atual. same_key key_column atual inc) dest) staging)"

text \<open>What the UPDATE leaves of a row \<open>d\<close> of the destination, as \<open>d'\<close>.\<close>

definition updated :: "string list \<Rightarrow> string \<Rightarrow> tuple list \<Rightarrow> tuple \<Rightarrow> tuple \<Rightarrow> bool" where
  "updated column_list key_column staging d d' =
     (if list_ex (same_key key_column d) staging
      then list_ex (\<lambda>s. same_key key_column d s \<and> d' = set_columns column_list s d) staging
      else d' = d)"

text \<open>A destination of two rows and a staging table with one changed and one new row.\<close>

definition person :: "int \<Rightarrow> string \<Rightarrow> tuple" where
  "person i n = (\<lambda>c. if c = ''id'' then VInt i else if c = ''nome'' then VStr n else VNone)"

definition people :: tables where
  "people = (\<lambda>t. if t = ''stg.pessoa'' then [person 1 ''ana'', person 2 ''bob'']
                  else if t = ''stg.pessoa_alteracoes'' then [person 2 ''bia'', person 3 ''caio'']
                  else [])"

definition first_joined :: "tuple \<Rightarrow> tuple list \<Rightarrow> tuple" where
  "first_joined d joined = hd joined"

section \<open>Properties of copy\_db\_to\_db\<close>

lemma copy_loop_no_faults:
  assumes nf: "no_faults env" and C: "0 < C"
  shows "copy_loop env C (take C xs) (drop C xs) ri w =
         Inr (ri + length xs,
              w\<lparr>working := working w @ xs,
                clock := clock w + length (loop_log C xs),
                log := log w @ loop_log C xs\<rparr>)"
  using C
proof (induction C xs arbitrary: ri w rule: loop_log.induct)
  case (1 C xs)
  show ?case
  proof (cases "xs = []")
    case True
    then show ?thesis by (simp add: loop_log.simps copy_loop.simps)
  next
    case False
    with 1 have ne: "take C xs \<noteq> []" by simp
    have ih: "\<And>ri w. copy_loop env C (take C (drop C xs)) (drop C (drop C xs)) ri w =
         Inr (ri + length (drop C xs),
              w\<lparr>working := working w @ drop C xs,
                clock := clock w + length (loop_log C (drop C xs)),
                log := log w @ loop_log C (drop C xs)\<rparr>)"
      using 1 False by simp
    have len: "length (take C xs) + length (drop C xs) = length xs"
      by (metis append_take_drop_id length_append)
    have e: "executemany env (take C xs) w =
        Inr ((), (step (EvExecutemany (length (take C xs))) w)\<lparr>working := working w @ take C xs\<rparr>)"
      using nf by (simp add: executemany_def no_faults_def)
    have f: "\<And>w1. fetchmany env C (drop C xs) w1 =
        Inr ((take C (drop C xs), drop C (drop C xs)),
                step (EvFetchmany (length (take C (drop C xs)))) w1)"
      using nf by (simp add: fetchmany_def no_faults_def)
    have ll: "loop_log C xs = [EvExecutemany (length (take C xs)), EvFetchmany (length (take C (drop C xs)))]
           @ loop_log C (drop C xs)"
      using False 1(2) by (subst loop_log.simps) simp
    have "copy_loop env C (take C xs) (drop C xs) ri w =
       copy_loop env C (take C (drop C xs)) (drop C (drop C xs)) (ri + length (take C xs))
         (step (EvFetchmany (length (take C (drop C xs))))
            ((step (EvExecutemany (length (take C xs))) w)\<lparr>working := working w @ take C xs\<rparr>))"
      using ne by (subst copy_loop.simps) (simp add: e f)
    also have "\<dots> = Inr (ri + length xs,
              w\<lparr>working := working w @ xs,
                clock := clock w + length (loop_log C xs),
                log := log w @ loop_log C xs\<rparr>)"
      unfolding ih ll using len
      by (simp add: step_def del: length_take length_drop)
    finally show ?thesis .
  qed
qed

lemma fetched_append: "fetched (xs @ ys) = fetched xs @ fetched ys"
  by (induction xs rule: fetched.induct) auto

lemma div_add_self_Suc: "0 < (C::nat) \<Longrightarrow> (m + C) div C = Suc (m div C)"
  using div_add_self2 [of C m] by simp

lemma loop_log_executemany:
  "0 < C \<Longrightarrow> length (filter is_executemany (loop_log C xs)) = (length xs + C - 1) div C"
proof (induction C xs rule: loop_log.induct)
  case (1 C xs)
  show ?case
  proof (cases "xs = []")
    case True
    with 1(2) show ?thesis by (simp add: loop_log.simps)
  next
    case False
    then have pos: "0 < length xs" by simp
    have ih: "length (filter is_executemany (loop_log C (drop C xs))) = (length xs - C + C - 1) div C"
      using 1 False by simp
    have ar: "Suc ((length xs - C + C - 1) div C) = (length xs + C - 1) div C"
    proof (cases "C \<le> length xs")
      case True
      have a: "length xs - C + C - 1 = length xs - 1" using True by simp
      have b: "length xs + C - 1 = (length xs - 1) + C" using pos by arith
      have "((length xs - 1) + C) div C = Suc ((length xs - 1) div C)"
        using 1(2) by (rule div_add_self_Suc)
      then show ?thesis unfolding a b by simp
    next
      case False
      have a: "length xs - C + C - 1 = C - 1" using False by simp
      have b: "length xs + C - 1 = (length xs - 1) + C" using pos by arith
      have c: "(length xs - 1) div C = 0" using False by simp
      have d: "(C - 1) div C = 0" using 1(2) by simp
      have "((length xs - 1) + C) div C = Suc ((length xs - 1) div C)"
        using 1(2) by (rule div_add_self_Suc)
      then show ?thesis unfolding a b c d by simp
    qed
    show ?thesis using False 1(2) ih ar by (subst loop_log.simps) simp
  qed
qed

lemma loop_log_fetched:
  "0 < C \<Longrightarrow> last (length (take C xs) # fetched (loop_log C xs)) = 0
     \<and> (\<forall>n\<in>set (butlast (length (take C xs) # fetched (loop_log C xs))). 0 < n)"
proof (induction C xs rule: loop_log.induct)
  case (1 C xs)
  show ?case
  proof (cases "xs = []")
    case True
    then show ?thesis by (simp add: loop_log.simps)
  next
    case False
    have ih: "last (length (take C (drop C xs)) # fetched (loop_log C (drop C xs))) = 0
     \<and> (\<forall>n\<in>set (butlast (length (take C (drop C xs)) # fetched (loop_log C (drop C xs)))). 0 < n)"
      using 1 False by simp
    have ll: "fetched (loop_log C xs) = length (take C (drop C xs)) # fetched (loop_log C (drop C xs))"
      using False 1(2) by (subst loop_log.simps) simp
    have pos: "0 < length (take C xs)" using False 1(2) by simp
    show ?thesis unfolding ll using ih pos by (simp del: length_take)
  qed
qed

lemma loop_log_no_commit: "EvCommit \<notin> set (loop_log C xs)"
proof (induction C xs rule: loop_log.induct)
  case (1 C xs)
  then show ?case by (subst loop_log.simps) auto
qed

lemma copy_db_to_db_no_faults:
  assumes nf: "no_faults env" and C: "0 < C"
  shows "\<exists>w'. copy_db_to_db env prov trunc C w = Inr (length (source env), w')
           \<and> committed w' = (if trunc then [] else committed w) @ source env
           \<and> new_events w w' =
               truncate_log prov trunc
               @ (EvExecute # EvFetchmany (length (take C (source env))) # loop_log C (source env))
               @ [EvCommit]"
  using nf
  by (simp add: copy_db_to_db_def Let_def truncate_table_def commit_def execute_def fetchmany_def
        copy_loop_no_faults [OF nf C] closing_def close_def connect_def step_def
        no_faults_def new_events_def truncate_log_def del: length_take)

lemma loop_log_four_rows:
  "loop_log 2 four_rows = [EvExecutemany 2, EvFetchmany 2, EvExecutemany 2, EvFetchmany 0]"
  by (simp add: loop_log.simps four_rows_def)

lemma events_of_four_rows:
  "events_of (copy_db_to_db (calm four_rows) PG False 2 (fresh []))
     = [EvExecute, EvFetchmany 2, EvExecutemany 2, EvFetchmany 2, EvExecutemany 2,
        EvFetchmany 0, EvCommit]"
proof -
  have h1: "0 < (2::nat)" by simp
  have h2: "no_faults (calm four_rows)" by (simp add: no_faults_def calm_def)
  have src: "source (calm four_rows) = four_rows" by (simp add: calm_def)
  obtain w' where r: "copy_db_to_db (calm four_rows) PG False 2 (fresh []) = Inr (length four_rows, w')"
    and l: "new_events (fresh []) w' = truncate_log PG False
               @ (EvExecute # EvFetchmany (length (take 2 four_rows)) # loop_log 2 four_rows)
               @ [EvCommit]"
    using copy_db_to_db_no_faults [OF h2 h1, of PG False "fresh []"] unfolding src by blast
  have t: "length (take 2 four_rows) = 2" by (simp add: four_rows_def)
  have "log w' = new_events (fresh []) w'" by (simp add: new_events_def fresh_def)
  then show ?thesis
    unfolding r l t loop_log_four_rows by (simp add: events_of_def truncate_log_def)
qed


lemma truncate_log_fetched: "fetched (truncate_log p t) = []"
  by (simp add: truncate_log_def)

lemma truncate_log_executemany: "filter is_executemany (truncate_log p t) = []"
  by (simp add: truncate_log_def)

text \<open>
  C1. With a chunk size above zero and no driver call raising, copy\_db\_to\_db on a
  result set of N rows counts N rows inserted, leaves the destination with them
  all, calls executemany ceil(N/C) times, and the last fetch, and only the last,
  returns no row.
\<close>

theorem copy_db_to_db_rows_and_round_trips:
  assumes "0 < chunksize" and "no_faults env"
  shows "\<exists>w'. copy_db_to_db env destination_provider destination_truncate chunksize w
               = Inr (length (source env), w')
           \<and> committed w' = (if destination_truncate then [] else committed w) @ source env
           \<and> length (filter is_executemany (new_events w w'))
               = (length (source env) + chunksize - 1) div chunksize
           \<and> last (fetched (new_events w w')) = 0
           \<and> (\<forall>n\<in>set (butlast (fetched (new_events w w'))). 0 < n)"
proof -
  obtain w' where
    r: "copy_db_to_db env destination_provider destination_truncate chunksize w
          = Inr (length (source env), w')"
    and c: "committed w' = (if destination_truncate then [] else committed w) @ source env"
    and l: "new_events w w' =
               truncate_log destination_provider destination_truncate
               @ (EvExecute # EvFetchmany (length (take chunksize (source env)))
                    # loop_log chunksize (source env))
               @ [EvCommit]"
    using copy_db_to_db_no_faults [OF assms(2) assms(1)] by blast
  have n: "length (filter is_executemany (new_events w w'))
             = (length (source env) + chunksize - 1) div chunksize"
    unfolding l using loop_log_executemany [OF assms(1), of "source env"]
    by (simp add: truncate_log_executemany)
  have f: "fetched (new_events w w')
             = length (take chunksize (source env)) # fetched (loop_log chunksize (source env))"
    unfolding l by (simp add: truncate_log_fetched fetched_append del: length_take)
  have g: "last (fetched (new_events w w')) = 0
           \<and> (\<forall>n\<in>set (butlast (fetched (new_events w w'))). 0 < n)"
    unfolding f by (rule loop_log_fetched [OF assms(1)])
  note g1 = conjunct1 [OF g] and g2 = conjunct2 [OF g]
  show ?thesis
    by (intro exI [of _ w'] conjI) (fact r c n g1 g2)+
qed

theorem copy_db_to_db_rows_and_round_trips_witness:
  "0 < (2::nat) \<and> no_faults (calm four_rows)
   \<and> (\<exists>w'. copy_db_to_db (calm four_rows) PG True 2 (fresh []) = Inr (4, w')
          \<and> committed w' = four_rows
          \<and> length (filter is_executemany (new_events (fresh []) w')) = 2)"
proof -
  have h1: "0 < (2::nat)" by simp
  have h2: "no_faults (calm four_rows)" by (simp add: no_faults_def calm_def)
  have src: "source (calm four_rows) = four_rows" by (simp add: calm_def)
  have len: "length four_rows = 4" by (simp add: four_rows_def)
  show ?thesis
    using h1 h2 copy_db_to_db_rows_and_round_trips [OF h1 h2, of PG True "fresh []"]
    unfolding src len by auto
qed

text \<open>
  C6, as stated, fails: the loop of copy\_db\_to\_db issues no commit. On four rows
  in chunks of two, both inserts come before the only commit.
\<close>

theorem copy_db_to_db_commit_per_chunk_counterexample:
  "events_of (copy_db_to_db (calm four_rows) PG False 2 (fresh []))
     = [EvExecute, EvFetchmany 2, EvExecutemany 2, EvFetchmany 2, EvExecutemany 2,
        EvFetchmany 0, EvCommit]
   \<and> \<not> commit_per_chunk False (events_of (copy_db_to_db (calm four_rows) PG False 2 (fresh [])))"
  unfolding events_of_four_rows by simp

text \<open>
  C6, amended. With a chunk size above zero and no driver call raising, the inserts
  of all chunks belong to one transaction: between the truncate and the end of the
  loop no commit is issued, and exactly one commit follows the loop, whatever the
  number of rows.
\<close>

theorem copy_db_to_db_single_commit:
  assumes "0 < chunksize" and "no_faults env"
  shows "\<exists>w' evs. copy_db_to_db env destination_provider destination_truncate chunksize w
               = Inr (length (source env), w')
           \<and> new_events w w'
               = truncate_log destination_provider destination_truncate @ evs @ [EvCommit]
           \<and> EvCommit \<notin> set evs
           \<and> length (filter is_executemany evs)
               = (length (source env) + chunksize - 1) div chunksize"
proof -
  let ?evs = "EvExecute # EvFetchmany (length (take chunksize (source env)))
                    # loop_log chunksize (source env)"
  obtain w' where
    r: "copy_db_to_db env destination_provider destination_truncate chunksize w
          = Inr (length (source env), w')"
    and l: "new_events w w' =
               truncate_log destination_provider destination_truncate @ ?evs @ [EvCommit]"
    using copy_db_to_db_no_faults [OF assms(2) assms(1)] by blast
  have a: "EvCommit \<notin> set ?evs" using loop_log_no_commit by simp
  have b: "length (filter is_executemany ?evs)
             = (length (source env) + chunksize - 1) div chunksize"
    using loop_log_executemany [OF assms(1), of "source env"] by simp
  show ?thesis using r l a b by blast
qed

theorem copy_db_to_db_single_commit_witness:
  "0 < (2::nat) \<and> no_faults (calm four_rows)
   \<and> (\<exists>w' evs. copy_db_to_db (calm four_rows) PG False 2 (fresh []) = Inr (4, w')
          \<and> new_events (fresh []) w' = evs @ [EvCommit]
          \<and> EvCommit \<notin> set evs
          \<and> length (filter is_executemany evs) = 2)"
proof -
  have h1: "0 < (2::nat)" by simp
  have h2: "no_faults (calm four_rows)" by (simp add: no_faults_def calm_def)
  have src: "source (calm four_rows) = four_rows" by (simp add: calm_def)
  have len: "length four_rows = 4" by (simp add: four_rows_def)
  have tl: "truncate_log PG False = []" by (simp add: truncate_log_def)
  show ?thesis
    using h1 h2 copy_db_to_db_single_commit [OF h1 h2, of PG False "fresh []"]
    unfolding src len tl by auto
qed

section \<open>Properties of copy\_by\_key\_interval\<close>

lemma interval_loop_rule:
  assumes S: "0 < S"
    and exit: "\<And>b rows ri w. \<not> (b \<le> m \<and> 0 < m) \<Longrightarrow> Q b rows ri w (finish env ri w)"
    and wfail: "\<And>b rows ri w e w'. \<lbrakk>b \<le> m; 0 < m; write_rows env rows w = Inl (e, w')\<rbrakk>
        \<Longrightarrow> Q b rows ri w (Inr ((False, Some b), say (ErroDestino b (b + S - 1)) w'))"
    and rfail: "\<And>b rows ri w u w2 e w'. \<lbrakk>b \<le> m; 0 < m; write_rows env rows w = Inr (u, w2);
          select_between env (b + S) (b + S + S - 1) w2 = Inl (e, w')\<rbrakk>
        \<Longrightarrow> Q b rows ri w
              (Inr ((False, Some (b + S)), say (ErroOrigem (b + S) (b + S + S - 1)) w'))"
    and cont: "\<And>b rows ri w u w2 rows' w3 r. \<lbrakk>b \<le> m; 0 < m;
          write_rows env rows w = Inr (u, w2);
          select_between env (b + S) (b + S + S - 1) w2 = Inr (rows', w3);
          Q (b + S) rows' (ri + length rows) w3 r\<rbrakk>
        \<Longrightarrow> Q b rows ri w r"
  shows "\<exists>r. interval_loop env S m b (b + S - 1) rows ri w = Some r \<and> Q b rows ri w r"
proof (induction "nat (m + 1 - b)" arbitrary: b rows ri w rule: less_induct)
  case less
  have e1: "b + S - 1 + 1 = b + S" by simp
  note unf = interval_loop.simps [of env S m b "b + S - 1" rows ri w, unfolded e1]
  show ?case
  proof (cases "b \<le> m \<and> 0 < m")
    case False
    then have "interval_loop env S m b (b + S - 1) rows ri w = Some (finish env ri w)"
      by (subst unf) (rule if_not_P [OF False])
    with exit [OF False] show ?thesis by simp
  next
    case True
    then have bm: "b \<le> m" and m: "0 < m" by simp_all
    show ?thesis
    proof (cases "write_rows env rows w")
      case (Inl ew)
      obtain e w' where ew: "ew = (e, w')" by (cases ew)
      have "interval_loop env S m b (b + S - 1) rows ri w
              = Some (Inr ((False, Some b), say (ErroDestino b (b + S - 1)) w'))"
        using True Inl ew by (subst unf) simp
      with wfail [OF bm m Inl [unfolded ew]] show ?thesis by simp
    next
      case (Inr uw)
      obtain u w2 where uw: "uw = (u, w2)" by (cases uw)
      note wr = Inr [unfolded uw]
      show ?thesis
      proof (cases "select_between env (b + S) (b + S + S - 1) w2")
        case (Inl ew)
        obtain e w' where ew: "ew = (e, w')" by (cases ew)
        have "interval_loop env S m b (b + S - 1) rows ri w
              = Some (Inr ((False, Some (b + S)), say (ErroOrigem (b + S) (b + S + S - 1)) w'))"
          using True wr Inl ew by (subst unf) simp
        with rfail [OF bm m wr Inl [unfolded ew]] show ?thesis by simp
      next
        case (Inr rw)
        obtain rows' w3 where rw: "rw = (rows', w3)" by (cases rw)
        note sel = Inr [unfolded rw]
        have step: "interval_loop env S m b (b + S - 1) rows ri w
              = interval_loop env S m (b + S) (b + S + S - 1) rows' (ri + length rows) w3"
          using True wr sel by (subst unf) simp
        have "nat (m + 1 - (b + S)) < nat (m + 1 - b)" using S bm by simp
        from less [OF this] obtain r where
          r: "interval_loop env S m (b + S) (b + S + S - 1) rows' (ri + length rows) w3 = Some r"
          and q: "Q (b + S) rows' (ri + length rows) w3 r" by blast
        from cont [OF bm m wr sel q] r step show ?thesis by simp
      qed
    qed
  qed
qed

lemma write_rows_Inr:
  "write_rows env rows w = Inr (u, w2) \<Longrightarrow> working w = committed w
     \<Longrightarrow> committed w2 = committed w @ rows \<and> working w2 = committed w2"
  by (auto simp: write_rows_def executemany_def commit_def raised_def step_def
           split: if_splits sum.splits)

lemma write_rows_Inl:
  "write_rows env rows w = Inl (e, w') \<Longrightarrow> committed w' = committed w"
  by (auto simp: write_rows_def executemany_def commit_def raised_def step_def
           split: if_splits sum.splits)

lemma select_between_Inr:
  "select_between env b e w = Inr (rows', w3)
     \<Longrightarrow> rows' = between (source env) b e \<and> committed w3 = committed w \<and> working w3 = working w"
  by (auto simp: select_between_def raised_def step_def split: if_splits)

lemma select_between_Inl:
  "select_between env b e w = Inl (x, w') \<Longrightarrow> committed w' = committed w"
  by (auto simp: select_between_def raised_def step_def split: if_splits)

lemma finish_Inr:
  "finish env ri w = Inr ((ok, nk), w') \<Longrightarrow> ok \<and> nk = None \<and> committed w' = working w"
  by (auto simp: finish_def commit_def raised_def step_def say_def split: if_splits)

lemma interval_loop_resumable:
  assumes S: "0 < S"
  shows "\<exists>r. interval_loop env S m b (b + S - 1) rows ri w = Some r
          \<and> (rows = between (source env) b (b + S - 1) \<longrightarrow> working w = committed w
               \<longrightarrow> resumable (source env) S m b (committed w) r)"
proof (rule interval_loop_rule [OF S])
  fix b rows ri w
  assume c: "\<not> (b \<le> m \<and> 0 < m)"
  then have cp: "copied (source env) S m b = []" by (subst copied.simps) auto
  show "rows = between (source env) b (b + S - 1) \<longrightarrow> working w = committed w
          \<longrightarrow> resumable (source env) S m b (committed w) (finish env ri w)"
  proof (intro impI)
    assume wc: "working w = committed w"
    show "resumable (source env) S m b (committed w) (finish env ri w)"
    proof (cases "finish env ri w")
      case (Inl ew)
      then show ?thesis by (simp add: resumable_def split: prod.splits)
    next
      case (Inr x)
      obtain ok nk w' where x: "x = ((ok, nk), w')" by (cases x) auto
      from finish_Inr [OF Inr [unfolded x]] wc cp show ?thesis
        unfolding Inr x by (simp add: resumable_def)
    qed
  qed
next
  fix b rows ri w e w'
  assume bm: "b \<le> m" and m: "0 < m" and wr: "write_rows env rows w = Inl (e, w')"
  have "committed (say (ErroDestino b (b + S - 1)) w') = committed w"
    using write_rows_Inl [OF wr] by (simp add: say_def)
  then have "\<exists>k pre. Some b = Some k \<and> committed (say (ErroDestino b (b + S - 1)) w') = committed w @ pre
                  \<and> copied (source env) S m b = pre @ copied (source env) S m k"
    by (intro exI [of _ b] exI [of _ "[]"]) simp
  then show "rows = between (source env) b (b + S - 1) \<longrightarrow> working w = committed w
          \<longrightarrow> resumable (source env) S m b (committed w)
                (Inr ((False, Some b), say (ErroDestino b (b + S - 1)) w'))"
    by (simp add: resumable_def)
next
  fix b rows ri w u w2 e w'
  assume bm: "b \<le> m" and m: "0 < m" and wr: "write_rows env rows w = Inr (u, w2)"
    and sel: "select_between env (b + S) (b + S + S - 1) w2 = Inl (e, w')"
  show "rows = between (source env) b (b + S - 1) \<longrightarrow> working w = committed w
          \<longrightarrow> resumable (source env) S m b (committed w)
                (Inr ((False, Some (b + S)), say (ErroOrigem (b + S) (b + S + S - 1)) w'))"
  proof (intro impI)
    assume rows: "rows = between (source env) b (b + S - 1)" and wc: "working w = committed w"
    have c: "committed (say (ErroOrigem (b + S) (b + S + S - 1)) w') = committed w @ rows"
      using write_rows_Inr [OF wr wc] select_between_Inl [OF sel] by (simp add: say_def)
    have cp: "copied (source env) S m b = rows @ copied (source env) S m (b + S)"
      using S bm m rows by (subst copied.simps) simp
    have "\<exists>k pre. Some (b + S) = Some k
             \<and> committed (say (ErroOrigem (b + S) (b + S + S - 1)) w') = committed w @ pre
             \<and> copied (source env) S m b = pre @ copied (source env) S m k"
      using c cp by (intro exI [of _ "b + S"] exI [of _ rows]) simp
    then show "resumable (source env) S m b (committed w)
                (Inr ((False, Some (b + S)), say (ErroOrigem (b + S) (b + S + S - 1)) w'))"
      by (simp add: resumable_def)
  qed
next
  fix b rows ri w u w2 rows' w3 r
  assume bm: "b \<le> m" and m: "0 < m" and wr: "write_rows env rows w = Inr (u, w2)"
    and sel: "select_between env (b + S) (b + S + S - 1) w2 = Inr (rows', w3)"
    and ih: "rows' = between (source env) (b + S) (b + S + S - 1) \<longrightarrow> working w3 = committed w3
          \<longrightarrow> resumable (source env) S m (b + S) (committed w3) r"
  show "rows = between (source env) b (b + S - 1) \<longrightarrow> working w = committed w
          \<longrightarrow> resumable (source env) S m b (committed w) r"
  proof (intro impI)
    assume rows: "rows = between (source env) b (b + S - 1)" and wc: "working w = committed w"
    note w2 = write_rows_Inr [OF wr wc]
    note w3 = select_between_Inr [OF sel]
    have c3: "committed w3 = committed w @ rows" and wc3: "working w3 = committed w3"
      using w2 w3 by simp_all
    have cp: "copied (source env) S m b = rows @ copied (source env) S m (b + S)"
      using S bm m rows by (subst copied.simps) simp
    have r0: "resumable (source env) S m (b + S) (committed w3) r"
      using ih w3 wc3 by blast
    have r: "resumable (source env) S m (b + S) (committed w @ rows) r"
      using r0 unfolding c3 .
    show "resumable (source env) S m b (committed w) r"
    proof (cases r)
      case (Inl ew)
      then show ?thesis by (simp add: resumable_def split: prod.splits)
    next
      case (Inr x)
      obtain ok nk w' where x: "x = ((ok, nk), w')" by (cases x) auto
      show ?thesis
      proof (cases ok)
        case True
        with r show ?thesis unfolding Inr x by (simp add: resumable_def cp)
      next
        case False
        with r obtain k pre where "nk = Some k" "committed w' = (committed w @ rows) @ pre"
          "copied (source env) S m (b + S) = pre @ copied (source env) S m k"
          unfolding Inr x by (auto simp: resumable_def)
        then have "nk = Some k \<and> committed w' = committed w @ (rows @ pre)
          \<and> copied (source env) S m b = (rows @ pre) @ copied (source env) S m k"
          using cp by simp
        then have "\<exists>k pre. nk = Some k \<and> committed w' = committed w @ pre
          \<and> copied (source env) S m b = pre @ copied (source env) S m k" by blast
        with False show ?thesis unfolding Inr x by (simp add: resumable_def)
      qed
    qed
  qed
qed

lemma truncate_stg_Inr:
  "truncate_stg env t (connect w0) = Inr (u, w2)
     \<Longrightarrow> committed w2 = (if t then [] else committed w0) \<and> working w2 = committed w2"
  by (auto simp: truncate_stg_def truncate_table_def commit_def raised_def step_def connect_def
           split: if_splits sum.splits)

lemma get_max_id_Inr:
  "get_max_id env w = Inr (mx, w') \<Longrightarrow>
     mx = max_key (source env) \<and> committed w' = committed w \<and> working w' = working w"
  by (auto simp: get_max_id_def raised_def step_def split: if_splits)

lemma resumable_closing:
  "resumable src S m b base (closing r) = resumable src S m b base r"
  by (auto simp: resumable_def closing_def close_def split: sum.splits prod.splits)

lemma copy_by_key_interval_unfold:
  "copy_by_key_interval env k0 S t w0 =
     map_option closing
       (case truncate_stg env t (connect w0) of
            Inl ew \<Rightarrow> Some (Inl ew)
          | Inr (_, w2) \<Rightarrow>
             (case select_between env k0 (k0 + S - 1) w2 of
                   Inl (e, w') \<Rightarrow>
                     Some (Inr ((False, Some k0), say (ErroOrigem k0 (k0 + S - 1)) w'))
                 | Inr (rows, w3) \<Rightarrow>
                    (case get_max_id env w3 of
                       Inl ew \<Rightarrow> Some (Inl ew)
                     | Inr (max_id, w4) \<Rightarrow>
                         interval_loop env S max_id k0 (k0 + S - 1) rows 0 w4)))"
  by (auto simp: copy_by_key_interval_def Let_def split: sum.splits prod.splits)

lemma copy_by_key_interval_resumable:
  assumes S: "0 < S"
  shows "\<exists>r. copy_by_key_interval env k0 S t w0 = Some r
          \<and> resumable (source env) S (max_key (source env)) k0
               (if t then [] else committed w0) r"
proof (cases "truncate_stg env t (connect w0)")
  case (Inl ew)
  then have "copy_by_key_interval env k0 S t w0 = Some (closing (Inl ew))"
    by (simp add: copy_by_key_interval_unfold)
  moreover have "resumable (source env) S (max_key (source env)) k0
               (if t then [] else committed w0) (Inl ew)"
    by (simp add: resumable_def split: prod.splits)
  ultimately show ?thesis by (simp add: resumable_closing)
next
  case (Inr uw)
  obtain u w2 where uw: "uw = (u, w2)" by (cases uw)
  note tr = Inr [unfolded uw]
  note b2 = truncate_stg_Inr [OF tr]
  show ?thesis
  proof (cases "select_between env k0 (k0 + S - 1) w2")
    case (Inl ew)
    obtain e w' where ew: "ew = (e, w')" by (cases ew)
    let ?r = "Inr ((False, Some k0), say (ErroOrigem k0 (k0 + S - 1)) w')"
    have c: "copy_by_key_interval env k0 S t w0 = Some (closing ?r)"
      using tr Inl ew by (simp add: copy_by_key_interval_unfold)
    have "committed (say (ErroOrigem k0 (k0 + S - 1)) w') = (if t then [] else committed w0)"
      using select_between_Inl [OF Inl [unfolded ew]] b2 by (simp add: say_def)
    then have "\<exists>k pre. Some k0 = Some k
        \<and> committed (say (ErroOrigem k0 (k0 + S - 1)) w') = (if t then [] else committed w0) @ pre
        \<and> copied (source env) S (max_key (source env)) k0
            = pre @ copied (source env) S (max_key (source env)) k"
      by (intro exI [of _ k0] exI [of _ "[]"]) simp
    then have "resumable (source env) S (max_key (source env)) k0
               (if t then [] else committed w0) ?r"
      by (simp add: resumable_def)
    with c show ?thesis by (simp add: resumable_closing)
  next
    case (Inr rw)
    obtain rows w3 where rw: "rw = (rows, w3)" by (cases rw)
    note sel = Inr [unfolded rw]
    note b3 = select_between_Inr [OF sel]
    show ?thesis
    proof (cases "get_max_id env w3")
      case (Inl ew)
      then have "copy_by_key_interval env k0 S t w0 = Some (closing (Inl ew))"
        using tr sel by (simp add: copy_by_key_interval_unfold)
      moreover have "resumable (source env) S (max_key (source env)) k0
               (if t then [] else committed w0) (Inl ew)"
        by (simp add: resumable_def split: prod.splits)
      ultimately show ?thesis by (simp add: resumable_closing)
    next
      case (Inr mw)
      obtain mx w4 where mw: "mw = (mx, w4)" by (cases mw)
      note mxq = Inr [unfolded mw]
      note b4 = get_max_id_Inr [OF mxq]
      have c: "copy_by_key_interval env k0 S t w0
                 = map_option closing (interval_loop env S mx k0 (k0 + S - 1) rows 0 w4)"
        using tr sel mxq by (simp add: copy_by_key_interval_unfold)
      have w4: "working w4 = committed w4" "committed w4 = (if t then [] else committed w0)"
        using b2 b3 b4 by simp_all
      from interval_loop_resumable [OF S, of env mx k0 rows 0 w4] obtain r where
        r: "interval_loop env S mx k0 (k0 + S - 1) rows 0 w4 = Some r"
        and q: "rows = between (source env) k0 (k0 + S - 1) \<longrightarrow> working w4 = committed w4
               \<longrightarrow> resumable (source env) S mx k0 (committed w4) r" by blast
      have mx: "mx = max_key (source env)" using b4 by simp
      have "resumable (source env) S mx k0 (committed w4) r"
        using q b3 w4(1) by blast
      then have "resumable (source env) S (max_key (source env)) k0 (if t then [] else committed w0) r"
        unfolding mx w4(2) .
      with c r show ?thesis by (simp add: resumable_closing)
    qed
  qed
qed

text \<open>
  C3. A run of copy\_by\_key\_interval that fails and returns \<open>(False, resume_key)\<close>,
  followed by a run from \<open>resume_key\<close> without truncation that succeeds, leaves
  the destination with the content that one successful run from \<open>key_start\<close> leaves,
  the source being the same and the interval size above zero.
\<close>

theorem resume_equals_uninterrupted_run:
  assumes "0 < key_interval"
    and "source env1 = source env" and "source env2 = source env"
    and "copy_by_key_interval env1 key_start key_interval destination_truncate w0
           = Some (Inr ((False, Some resume_key), w1))"
    and "copy_by_key_interval env2 resume_key key_interval False w1
           = Some (Inr ((True, None), w2))"
    and "copy_by_key_interval env key_start key_interval destination_truncate w0
           = Some (Inr ((True, None), w3))"
  shows "committed w2 = committed w3"
proof -
  let ?m = "max_key (source env)"
  let ?base = "if destination_truncate then [] else committed w0"
  from copy_by_key_interval_resumable [OF assms(1), of env1 key_start destination_truncate w0]
  have "resumable (source env) key_interval ?m key_start ?base
          (Inr ((False, Some resume_key), w1))"
    unfolding assms(2) assms(4) by simp
  then obtain pre where w1: "committed w1 = ?base @ pre"
    and cp: "copied (source env) key_interval ?m key_start
               = pre @ copied (source env) key_interval ?m resume_key"
    by (auto simp: resumable_def)
  from copy_by_key_interval_resumable [OF assms(1), of env2 resume_key False w1]
  have "resumable (source env) key_interval ?m resume_key (committed w1)
          (Inr ((True, None), w2))"
    unfolding assms(3) assms(5) by simp
  then have w2: "committed w2 = committed w1 @ copied (source env) key_interval ?m resume_key"
    by (simp add: resumable_def)
  from copy_by_key_interval_resumable [OF assms(1), of env key_start destination_truncate w0]
  have "resumable (source env) key_interval ?m key_start ?base (Inr ((True, None), w3))"
    unfolding assms(6) by simp
  then have w3: "committed w3 = ?base @ copied (source env) key_interval ?m key_start"
    by (simp add: resumable_def)
  show ?thesis unfolding w2 w3 w1 cp by simp
qed

lemmas run_defs =
  copy_by_key_interval_unfold truncate_stg_def truncate_table_def commit_def select_between_def
  get_max_id_def max_key_def between_def step_def connect_def raised_def say_def
  closing_def close_def fresh_def calm_def

lemmas turn_defs =
  write_rows_def executemany_def commit_def select_between_def between_def step_def
  say_def raised_def finish_def closing_def close_def

lemma stormy_run:
  "copy_by_key_interval (stormy two_rows) 0 10 True (fresh [(99, ''old'')])
     = Some (Inr ((False, Some 10),
         \<lparr>committed = [(1, ''a'')], working = [(1, ''a'')], clock = 7,
          log = [EvTruncate, EvCommit, EvSelect 0 9 1, EvMaxId 12, EvExecutemany 1, EvCommit,
                 EvRaised (SrcSelect 10 19), ErroOrigem 10 19]\<rparr>))"
  apply (simp add: run_defs stormy_def two_rows_def)
  apply (subst interval_loop.simps, simp add: turn_defs)+
  done

lemma resumed_run:
  "copy_by_key_interval (calm two_rows) 10 10 False
       \<lparr>committed = [(1, ''a'')], working = [(1, ''a'')], clock = 7,
          log = [EvTruncate, EvCommit, EvSelect 0 9 1, EvMaxId 12, EvExecutemany 1, EvCommit,
                 EvRaised (SrcSelect 10 19), ErroOrigem 10 19]\<rparr>
     = Some (Inr ((True, None),
         \<lparr>committed = [(1, ''a''), (12, ''b'')], working = [(1, ''a''), (12, ''b'')],
          clock = 13,
          log = [EvTruncate, EvCommit, EvSelect 0 9 1, EvMaxId 12, EvExecutemany 1, EvCommit,
                 EvRaised (SrcSelect 10 19), ErroOrigem 10 19, EvSelect 10 19 1, EvMaxId 12,
                 EvExecutemany 1, EvCommit, EvSelect 20 29 0, EvCommit,
                 LinhasInseridas 1]\<rparr>))"
  apply (simp add: run_defs two_rows_def)
  apply (subst interval_loop.simps, simp add: turn_defs)+
  done

lemma calm_run:
  "copy_by_key_interval (calm two_rows) 0 10 True (fresh [(99, ''old'')])
     = Some (Inr ((True, None),
         \<lparr>committed = [(1, ''a''), (12, ''b'')], working = [(1, ''a''), (12, ''b'')],
          clock = 11,
          log = [EvTruncate, EvCommit, EvSelect 0 9 1, EvMaxId 12, EvExecutemany 1, EvCommit,
                 EvSelect 10 19 1, EvExecutemany 1, EvCommit, EvSelect 20 29 0, EvCommit,
                 LinhasInseridas 2]\<rparr>))"
  apply (simp add: run_defs two_rows_def)
  apply (subst interval_loop.simps, simp add: turn_defs)+
  done

theorem resume_equals_uninterrupted_run_witness:
  "\<exists>w1 w2 w3.
      copy_by_key_interval (stormy two_rows) 0 10 True (fresh [(99, ''old'')])
        = Some (Inr ((False, Some 10), w1))
    \<and> copy_by_key_interval (calm two_rows) 10 10 False w1 = Some (Inr ((True, None), w2))
    \<and> copy_by_key_interval (calm two_rows) 0 10 True (fresh [(99, ''old'')])
        = Some (Inr ((True, None), w3))
    \<and> committed w2 = committed w3"
proof -
  have S: "0 < (10::int)" by simp
  have s1: "source (stormy two_rows) = source (calm two_rows)"
    by (simp add: stormy_def calm_def)
  have s2: "source (calm two_rows) = source (calm two_rows)" by simp
  from resume_equals_uninterrupted_run [OF S s1 s2 stormy_run resumed_run calm_run]
  show ?thesis using stormy_run resumed_run calm_run by blast
qed

lemma selects_append: "selects (xs @ ys) = selects xs @ selects ys"
  by (induction xs rule: selects.induct) auto

lemma raises_append: "raises (xs @ ys) = raises xs @ raises ys"
  by (induction xs rule: raises.induct) auto

lemma write_rows_log_Inl:
  assumes "write_rows env rows w = Inl (e, w')"
  shows "\<exists>p evs. log w' = log w @ evs @ [EvRaised p] \<and> (p = DstExecutemany \<or> p = DstCommit InLoop)
           \<and> selects evs = [] \<and> raises evs = [] \<and> \<not> no_faults env"
proof (cases "fails env (clock w) DstExecutemany")
  case True
  with assms have "log w' = log w @ [] @ [EvRaised DstExecutemany]" "\<not> no_faults env"
    by (auto simp: write_rows_def executemany_def raised_def step_def no_faults_def
             split: if_splits)
  moreover have "selects [] = []" "raises [] = []" by simp_all
  ultimately show ?thesis by blast
next
  case False
  with assms have "log w' = log w @ [EvExecutemany (length rows)] @ [EvRaised (DstCommit InLoop)]"
     "\<not> no_faults env"
    by (auto simp: write_rows_def executemany_def commit_def raised_def step_def no_faults_def
             split: if_splits)
  moreover have "selects [EvExecutemany (length rows)] = []"
    "raises [EvExecutemany (length rows)] = []" by simp_all
  ultimately show ?thesis by blast
qed

lemma write_rows_log_Inr:
  "write_rows env rows w = Inr (u, w2)
     \<Longrightarrow> \<exists>evs. log w2 = log w @ evs \<and> selects evs = [] \<and> raises evs = []"
  by (auto simp: write_rows_def executemany_def commit_def raised_def step_def
           split: if_splits sum.splits)

lemma select_between_log_Inl:
  "select_between env b e w = Inl (x, w')
     \<Longrightarrow> log w' = log w @ [EvRaised (SrcSelect b e)] \<and> \<not> no_faults env"
  by (auto simp: select_between_def raised_def step_def no_faults_def split: if_splits)

lemma select_between_log_Inr:
  "select_between env b e w = Inr (rows', w3) \<Longrightarrow> log w3 = log w @ [EvSelect b e (length rows')]"
  by (auto simp: select_between_def raised_def step_def split: if_splits)

lemma finish_ok:
  "outside_try_ok env \<Longrightarrow>
     \<exists>w'. finish env ri w = Inr ((True, None), w') \<and> log w' = log w @ [EvCommit, LinhasInseridas ri]"
  by (simp add: finish_def commit_def outside_try_ok_def step_def say_def)

lemma last_select_snoc_select: "last_select (evs @ [EvSelect b e n]) = Some (b, e)"
  by (simp add: last_select_def selects_append)

lemma last_select_no_select: "selects evs' = [] \<Longrightarrow> last_select (evs @ evs') = last_select evs"
  by (simp add: last_select_def selects_append)

lemma interval_loop_outcome:
  assumes S: "0 < S" and ok: "outside_try_ok env"
  shows "\<exists>r. interval_loop env S m b (b + S - 1) rows ri w = Some r
          \<and> (n0 \<le> length (log w) \<and> last_select (drop n0 (log w)) = Some (b, b + S - 1)
                \<and> raises (drop n0 (log w)) = []
               \<longrightarrow> outcome env S n0 r)"
proof (rule interval_loop_rule [OF S])
  fix b rows ri w
  assume "\<not> (b \<le> m \<and> 0 < m)"
  from finish_ok [OF ok, of ri w] obtain w' where
    f: "finish env ri w = Inr ((True, None), w')" and l: "log w' = log w @ [EvCommit, LinhasInseridas ri]"
    by blast
  show "n0 \<le> length (log w) \<and> last_select (drop n0 (log w)) = Some (b, b + S - 1)
          \<and> raises (drop n0 (log w)) = []
          \<longrightarrow> outcome env S n0 (finish env ri w)"
    unfolding f by (simp add: outcome_def l reported_def raises_append)
next
  fix b rows ri w e w'
  assume bm: "b \<le> m" and m: "0 < m" and wr: "write_rows env rows w = Inl (e, w')"
  from write_rows_log_Inl [OF wr] obtain p evs where
    l: "log w' = log w @ evs @ [EvRaised p]" and p: "p = DstExecutemany \<or> p = DstCommit InLoop"
    and ns: "selects evs = []" and nr: "raises evs = []" and nf: "\<not> no_faults env" by blast
  show "n0 \<le> length (log w) \<and> last_select (drop n0 (log w)) = Some (b, b + S - 1)
          \<and> raises (drop n0 (log w)) = []
          \<longrightarrow> outcome env S n0 (Inr ((False, Some b), say (ErroDestino b (b + S - 1)) w'))"
  proof (intro impI, elim conjE)
    assume n0: "n0 \<le> length (log w)" and ls: "last_select (drop n0 (log w)) = Some (b, b + S - 1)"
      and r0: "raises (drop n0 (log w)) = []"
    have d: "drop n0 (log (say (ErroDestino b (b + S - 1)) w'))
               = (drop n0 (log w) @ evs) @ [EvRaised p, ErroDestino b (b + S - 1)]"
      using n0 by (simp add: say_def l)
    have a: "last_select (drop n0 (log w) @ evs) = Some (b, b + S - 1)"
      using ls ns by (simp add: last_select_no_select)
    have c: "raises (drop n0 (log w) @ evs) = []"
      using r0 nr by (simp add: raises_append)
    have "reported S (drop n0 (log (say (ErroDestino b (b + S - 1)) w'))) (False, Some b)"
      unfolding d using p a c by (auto simp: reported_def)
    then show "outcome env S n0 (Inr ((False, Some b), say (ErroDestino b (b + S - 1)) w'))"
      using n0 nf by (simp add: outcome_def say_def l)
  qed
next
  fix b rows ri w u w2 e w'
  assume bm: "b \<le> m" and m: "0 < m" and wr: "write_rows env rows w = Inr (u, w2)"
    and sel: "select_between env (b + S) (b + S + S - 1) w2 = Inl (e, w')"
  from write_rows_log_Inr [OF wr] obtain evs where l2: "log w2 = log w @ evs"
    and nr: "raises evs = []" by blast
  from select_between_log_Inl [OF sel] have
    l: "log w' = log w2 @ [EvRaised (SrcSelect (b + S) (b + S + S - 1))]" and nf: "\<not> no_faults env"
    by simp_all
  show "n0 \<le> length (log w) \<and> last_select (drop n0 (log w)) = Some (b, b + S - 1)
          \<and> raises (drop n0 (log w)) = []
          \<longrightarrow> outcome env S n0
                (Inr ((False, Some (b + S)), say (ErroOrigem (b + S) (b + S + S - 1)) w'))"
  proof (intro impI, elim conjE)
    assume n0: "n0 \<le> length (log w)" and r0: "raises (drop n0 (log w)) = []"
    have d: "drop n0 (log (say (ErroOrigem (b + S) (b + S + S - 1)) w'))
               = (drop n0 (log w) @ evs)
                 @ [EvRaised (SrcSelect (b + S) (b + S + S - 1)), ErroOrigem (b + S) (b + S + S - 1)]"
      using n0 by (simp add: say_def l l2)
    have c: "raises (drop n0 (log w) @ evs) = []"
      using r0 nr by (simp add: raises_append)
    have "reported S (drop n0 (log (say (ErroOrigem (b + S) (b + S + S - 1)) w'))) (False, Some (b + S))"
      unfolding d using c by (simp add: reported_def)
    then show "outcome env S n0
                (Inr ((False, Some (b + S)), say (ErroOrigem (b + S) (b + S + S - 1)) w'))"
      using n0 nf by (simp add: outcome_def say_def l l2)
  qed
next
  fix b rows ri w u w2 rows' w3 r
  assume bm: "b \<le> m" and m: "0 < m" and wr: "write_rows env rows w = Inr (u, w2)"
    and sel: "select_between env (b + S) (b + S + S - 1) w2 = Inr (rows', w3)"
    and ih: "n0 \<le> length (log w3) \<and> last_select (drop n0 (log w3)) = Some (b + S, b + S + S - 1)
          \<and> raises (drop n0 (log w3)) = []
          \<longrightarrow> outcome env S n0 r"
  from write_rows_log_Inr [OF wr] obtain evs where l2: "log w2 = log w @ evs"
    and nr: "raises evs = []" by blast
  note l3 = select_between_log_Inr [OF sel]
  show "n0 \<le> length (log w) \<and> last_select (drop n0 (log w)) = Some (b, b + S - 1)
          \<and> raises (drop n0 (log w)) = []
          \<longrightarrow> outcome env S n0 r"
  proof (intro impI, elim conjE)
    assume n0: "n0 \<le> length (log w)" and r0: "raises (drop n0 (log w)) = []"
    have a: "n0 \<le> length (log w3)" using n0 by (simp add: l3 l2)
    have d: "drop n0 (log w3)
               = (drop n0 (log w) @ evs) @ [EvSelect (b + S) (b + S + S - 1) (length rows')]"
      using n0 by (simp add: l3 l2)
    have b: "last_select (drop n0 (log w3)) = Some (b + S, b + S + S - 1)"
      unfolding d by (simp only: last_select_snoc_select)
    have c: "raises (drop n0 (log w3)) = []"
      unfolding d using r0 nr by (simp add: raises_append)
    from ih a b c show "outcome env S n0 r" by blast
  qed
qed

lemma truncate_stg_ok:
  "outside_try_ok env \<Longrightarrow>
     \<exists>w2 evs. truncate_stg env t w = Inr ((), w2) \<and> log w2 = log w @ evs \<and> selects evs = []
               \<and> raises evs = []"
  by (cases t) (simp_all add: truncate_stg_def truncate_table_def commit_def outside_try_ok_def step_def)

lemma get_max_id_ok:
  "outside_try_ok env \<Longrightarrow>
     \<exists>w'. get_max_id env w = Inr (max_key (source env), w')
          \<and> log w' = log w @ [EvMaxId (max_key (source env))]"
  by (simp add: get_max_id_def outside_try_ok_def step_def)

lemma outcome_closing: "outcome env S n0 (closing r) = outcome env S n0 r"
  by (auto simp: outcome_def closing_def close_def split: sum.splits prod.splits)

lemma copy_by_key_interval_outcome:
  assumes "0 < key_interval" and "outside_try_ok env"
  shows "\<exists>r. copy_by_key_interval env key_start key_interval destination_truncate w0 = Some r
           \<and> outcome env key_interval (length (log w0)) r"
proof -
  let ?S = key_interval and ?k = key_start
  let ?n0 = "length (log w0)"
  from truncate_stg_ok [OF assms(2), of destination_truncate "connect w0"] obtain w2 evs where
    tr: "truncate_stg env destination_truncate (connect w0) = Inr ((), w2)"
    and l2: "log w2 = log w0 @ evs" and ns: "selects evs = []" and nr: "raises evs = []"
    by (auto simp: connect_def)
  show ?thesis
  proof (cases "select_between env ?k (?k + ?S - 1) w2")
    case (Inl ew)
    obtain e w' where ew: "ew = (e, w')" by (cases ew)
    let ?r = "Inr ((False, Some ?k), say (ErroOrigem ?k (?k + ?S - 1)) w')"
    have c: "copy_by_key_interval env ?k ?S destination_truncate w0 = Some (closing ?r)"
      using tr Inl ew by (simp add: copy_by_key_interval_unfold)
    from select_between_log_Inl [OF Inl [unfolded ew]] have
      l: "log w' = log w2 @ [EvRaised (SrcSelect ?k (?k + ?S - 1))]" and nf: "\<not> no_faults env"
      by simp_all
    have d: "drop ?n0 (log (say (ErroOrigem ?k (?k + ?S - 1)) w'))
               = evs @ [EvRaised (SrcSelect ?k (?k + ?S - 1)), ErroOrigem ?k (?k + ?S - 1)]"
      by (simp add: say_def l l2)
    have "reported ?S (drop ?n0 (log (say (ErroOrigem ?k (?k + ?S - 1)) w'))) (False, Some ?k)"
      unfolding d using nr by (simp add: reported_def)
    then have "outcome env ?S ?n0 ?r"
      using nf by (simp add: outcome_def say_def l l2)
    with c show ?thesis by (simp add: outcome_closing)
  next
    case (Inr rw)
    obtain rows w3 where rw: "rw = (rows, w3)" by (cases rw)
    note sel = Inr [unfolded rw]
    note l3 = select_between_log_Inr [OF sel]
    from get_max_id_ok [OF assms(2), of w3] obtain w4 where
      mx: "get_max_id env w3 = Inr (max_key (source env), w4)"
      and l4: "log w4 = log w3 @ [EvMaxId (max_key (source env))]" by blast
    have c: "copy_by_key_interval env ?k ?S destination_truncate w0
               = map_option closing
                   (interval_loop env ?S (max_key (source env)) ?k (?k + ?S - 1) rows 0 w4)"
      using tr sel mx by (simp add: copy_by_key_interval_unfold)
    have a: "?n0 \<le> length (log w4)" by (simp add: l4 l3 l2)
    have d4: "drop ?n0 (log w4)
            = (evs @ [EvSelect ?k (?k + ?S - 1) (length rows)]) @ [EvMaxId (max_key (source env))]"
      by (simp add: l4 l3 l2)
    have b: "last_select (drop ?n0 (log w4)) = Some (?k, ?k + ?S - 1)"
      unfolding d4 by (simp add: last_select_def selects_append)
    have r4: "raises (drop ?n0 (log w4)) = []"
      unfolding d4 using nr by (simp add: raises_append)
    from interval_loop_outcome [OF assms(1) assms(2),
           of "max_key (source env)" ?k rows 0 w4 ?n0] a b r4
    obtain r where "interval_loop env ?S (max_key (source env)) ?k (?k + ?S - 1) rows 0 w4 = Some r"
      and "outcome env ?S ?n0 r" by blast
    with c show ?thesis by (simp add: outcome_closing)
  qed
qed

lemma reported_False_raised:
  assumes "reported S evs (False, Some k)"
  shows "raises evs \<noteq> []"
proof (cases evs rule: rev_cases)
  case Nil
  with assms show ?thesis by (simp add: reported_def)
next
  case outer: (snoc ys x)
  show ?thesis
  proof (cases ys rule: rev_cases)
    case Nil
    with outer assms show ?thesis by (simp add: reported_def split: event.splits)
  next
    case inner: (snoc zs y)
    from assms have "\<exists>p. y = EvRaised p"
      unfolding outer inner by (cases y; cases x) (simp_all add: reported_def)
    then obtain p where "y = EvRaised p" by blast
    then show ?thesis unfolding outer inner by (simp add: raises_append)
  qed
qed

lemma reported_raises:
  assumes "reported S evs st"
  shows "(raises evs = [] \<longrightarrow> st = (True, None))
           \<and> (raises evs \<noteq> [] \<longrightarrow> (\<exists>k. st = (False, Some k)))"
proof (cases st)
  case (Pair ok next_key)
  show ?thesis
  proof (cases ok)
    case True
    with assms Pair show ?thesis by (simp add: reported_def)
  next
    case False
    with assms Pair obtain k where k: "next_key = Some k"
      by (cases next_key) (auto simp: reported_def)
    from assms have "reported S evs (False, Some k)" using Pair False k by simp
    from reported_False_raised [OF this] show ?thesis using Pair False k by simp
  qed
qed

text \<open>
  C4. With an interval size above zero, and when no call outside the try blocks
  raises (the truncate, its commit, the query of the maximum, the last commit),
  copy\_by\_key\_interval returns a pair and never raises. When a read or a write of
  the run raised, the pair is \<open>(False, k)\<close>: that call is the last call of the run
  and the only one that raised, and the line printed after it names the interval
  that starts at \<open>k\<close>, which is the interval whose read raised, or the interval last
  read when the insert or the commit of its rows raised. When no call of the run
  raised, the pair is \<open>(True, None)\<close>.
\<close>

theorem read_write_failures_are_returned:
  assumes "0 < key_interval" and "outside_try_ok env"
  shows "\<exists>st w'. copy_by_key_interval env key_start key_interval destination_truncate w0
                    = Some (Inr (st, w'))
           \<and> reported key_interval (new_events w0 w') st
           \<and> (raises (new_events w0 w') \<noteq> [] \<longrightarrow> (\<exists>k. st = (False, Some k)))
           \<and> (raises (new_events w0 w') = [] \<longrightarrow> st = (True, None))
           \<and> (no_faults env \<longrightarrow> st = (True, None))"
proof -
  from copy_by_key_interval_outcome [OF assms, of key_start destination_truncate w0]
  obtain r where
    r: "copy_by_key_interval env key_start key_interval destination_truncate w0 = Some r"
    and o: "outcome env key_interval (length (log w0)) r" by blast
  from o obtain st w' where rr: "r = Inr (st, w')"
    and rep: "reported key_interval (drop (length (log w0)) (log w')) st"
    and nf: "no_faults env \<longrightarrow> fst st"
    by (cases r) (auto simp: outcome_def)
  have run: "copy_by_key_interval env key_start key_interval destination_truncate w0
               = Some (Inr (st, w'))"
    using r rr by simp
  have rep': "reported key_interval (new_events w0 w') st"
    using rep by (simp add: new_events_def)
  note rs = reported_raises [OF rep']
  have a: "raises (new_events w0 w') \<noteq> [] \<longrightarrow> (\<exists>k. st = (False, Some k))" using rs by blast
  have b: "raises (new_events w0 w') = [] \<longrightarrow> st = (True, None)" using rs by blast
  have c: "no_faults env \<longrightarrow> st = (True, None)"
    using rep nf by (cases st) (auto simp: reported_def)
  show ?thesis
    by (intro exI [of _ st] exI [of _ w'] conjI) (fact run rep' a b c)+
qed

lemma unwritable_run:
  "copy_by_key_interval (unwritable two_rows) 0 10 True (fresh [(99, ''old'')])
     = Some (Inr ((False, Some 0),
         \<lparr>committed = [], working = [], clock = 5,
          log = [EvTruncate, EvCommit, EvSelect 0 9 1, EvMaxId 12, EvRaised DstExecutemany,
                 ErroDestino 0 9]\<rparr>))"
  apply (simp add: run_defs unwritable_def two_rows_def)
  apply (subst interval_loop.simps, simp add: turn_defs)+
  done

theorem read_write_failures_are_returned_witness:
  "0 < (10::int) \<and> outside_try_ok (stormy two_rows) \<and> outside_try_ok (unwritable two_rows)
   \<and> (\<exists>w'. copy_by_key_interval (stormy two_rows) 0 10 True (fresh [(99, ''old'')])
               = Some (Inr ((False, Some 10), w'))
          \<and> raises (new_events (fresh [(99, ''old'')]) w') = [SrcSelect 10 19]
          \<and> reported 10 (new_events (fresh [(99, ''old'')]) w') (False, Some 10))
   \<and> (\<exists>w'. copy_by_key_interval (unwritable two_rows) 0 10 True (fresh [(99, ''old'')])
               = Some (Inr ((False, Some 0), w'))
          \<and> raises (new_events (fresh [(99, ''old'')]) w') = [DstExecutemany]
          \<and> reported 10 (new_events (fresh [(99, ''old'')]) w') (False, Some 0))"
proof -
  have S: "0 < (10::int)" by simp
  have ok: "outside_try_ok (stormy two_rows)" by (simp add: outside_try_ok_def stormy_def)
  have ok': "outside_try_ok (unwritable two_rows)"
    by (simp add: outside_try_ok_def unwritable_def)
  from read_write_failures_are_returned [OF S ok, of 0 True "fresh [(99, ''old'')]"]
  obtain st w' where
    r: "copy_by_key_interval (stormy two_rows) 0 10 True (fresh [(99, ''old'')]) = Some (Inr (st, w'))"
    and p: "reported 10 (new_events (fresh [(99, ''old'')]) w') st" by blast
  from r have st: "st = (False, Some 10)" and l: "log w' = [EvTruncate, EvCommit, EvSelect 0 9 1,
      EvMaxId 12, EvExecutemany 1, EvCommit, EvRaised (SrcSelect 10 19), ErroOrigem 10 19]"
    unfolding stormy_run by auto
  have e: "raises (new_events (fresh [(99, ''old'')]) w') = [SrcSelect 10 19]"
    by (simp add: new_events_def fresh_def l)
  from read_write_failures_are_returned [OF S ok', of 0 True "fresh [(99, ''old'')]"]
  obtain st2 w2 where
    r2: "copy_by_key_interval (unwritable two_rows) 0 10 True (fresh [(99, ''old'')])
           = Some (Inr (st2, w2))"
    and p2: "reported 10 (new_events (fresh [(99, ''old'')]) w2) st2" by blast
  from r2 have st2: "st2 = (False, Some 0)" and l2: "log w2 = [EvTruncate, EvCommit, EvSelect 0 9 1,
      EvMaxId 12, EvRaised DstExecutemany, ErroDestino 0 9]"
    unfolding unwritable_run by auto
  have e2: "raises (new_events (fresh [(99, ''old'')]) w2) = [DstExecutemany]"
    by (simp add: new_events_def fresh_def l2)
  have A: "\<exists>w'. copy_by_key_interval (stormy two_rows) 0 10 True (fresh [(99, ''old'')])
               = Some (Inr ((False, Some 10), w'))
          \<and> raises (new_events (fresh [(99, ''old'')]) w') = [SrcSelect 10 19]
          \<and> reported 10 (new_events (fresh [(99, ''old'')]) w') (False, Some 10)"
    using r p e unfolding st by blast
  have B: "\<exists>w'. copy_by_key_interval (unwritable two_rows) 0 10 True (fresh [(99, ''old'')])
               = Some (Inr ((False, Some 0), w'))
          \<and> raises (new_events (fresh [(99, ''old'')]) w') = [DstExecutemany]
          \<and> reported 10 (new_events (fresh [(99, ''old'')]) w') (False, Some 0)"
    using r2 p2 e2 unfolding st2 by blast
  show ?thesis by (intro conjI) (fact S ok ok' A B)+
qed

lemma interval_loop_exit:
  "\<not> (b \<le> m \<and> 0 < m) \<Longrightarrow> interval_loop env S m b e rows ri w = Some (finish env ri w)"
  by (subst interval_loop.simps) auto

text \<open>
  C10. When the greatest key of the source is 0 and no call raises, the loop makes
  no turn: the run reads the first interval, asks for the greatest key, commits,
  reports zero rows inserted and returns \<open>(True, None)\<close>; the rows it read are not
  written. The interval size can be any integer.
\<close>

theorem no_copy_when_max_key_is_zero:
  assumes "max_key (source env) = 0" and "no_faults env"
  shows "\<exists>w'. copy_by_key_interval env key_start key_interval destination_truncate w0
                 = Some (Inr ((True, None), w'))
           \<and> committed w' = (if destination_truncate then [] else committed w0)
           \<and> new_events w0 w' =
               (if destination_truncate then [EvTruncate, EvCommit] else [])
               @ [EvSelect key_start (key_start + key_interval - 1)
                    (length (between (source env) key_start (key_start + key_interval - 1))),
                  EvMaxId 0, EvCommit, LinhasInseridas 0]"
proof -
  have nf: "\<And>n p. \<not> fails env n p" using assms(2) by (simp add: no_faults_def)
  show ?thesis
    by (simp add: copy_by_key_interval_unfold truncate_stg_def truncate_table_def commit_def
          select_between_def get_max_id_def assms(1) nf interval_loop_exit finish_def
          closing_def close_def connect_def step_def say_def new_events_def)
qed

theorem no_copy_when_max_key_is_zero_witness:
  "max_key (source (calm [(0, ''a'')])) = 0 \<and> no_faults (calm [(0, ''a'')])
   \<and> (\<exists>w'. copy_by_key_interval (calm [(0, ''a'')]) 0 10 False (fresh [])
               = Some (Inr ((True, None), w'))
          \<and> committed w' = []
          \<and> new_events (fresh []) w' = [EvSelect 0 9 1, EvMaxId 0, EvCommit, LinhasInseridas 0])"
proof -
  have m: "max_key (source (calm [(0, ''a'')])) = 0" by (simp add: max_key_def calm_def)
  have nf: "no_faults (calm [(0, ''a'')])" by (simp add: no_faults_def calm_def)
  have b: "between (source (calm [(0, ''a'')])) 0 (0 + 10 - 1) = [(0, ''a'')]"
    by (simp add: between_def calm_def)
  have c: "committed (fresh []) = []" by (simp add: fresh_def)
  from no_copy_when_max_key_is_zero [OF m nf, of 0 10 False "fresh []"]
  show ?thesis using m nf unfolding b c by simp
qed

lemma no_faults_outside_try_ok: "no_faults env \<Longrightarrow> outside_try_ok env"
  by (simp add: no_faults_def outside_try_ok_def)

lemma interval_Suc: "interval S b (Suc i) = interval S (b + S) i"
  by (simp add: interval_def algebra_simps)

lemma interval_0: "interval S b 0 = (b, b + S - 1)"
  by (simp add: interval_def)

lemma map_upt_Suc_shift: "map f [0..<Suc n] = f 0 # map (\<lambda>i. f (Suc i)) [0..<n]"
  by (simp only: map_upt_Suc)

lemma turns_step: "0 < S \<Longrightarrow> b \<le> m \<Longrightarrow> 0 < m \<Longrightarrow> turns S m b = Suc (turns S m (b + S))"
  by (subst turns.simps) simp

lemma turns_exit: "\<not> (b \<le> m \<and> 0 < m) \<Longrightarrow> turns S m b = 0"
  by (subst turns.simps) auto

lemma copied_turns:
  "0 < S \<Longrightarrow> copied src S m b = concat (map (\<lambda>i. rows_of src (interval S b i)) [0..<turns S m b])"
proof (induction S m b rule: turns.induct)
  case (1 S m b)
  show ?case
  proof (cases "b \<le> m \<and> 0 < m")
    case False
    then have "copied src S m b = []" by (subst copied.simps) auto
    with turns_exit [OF False] show ?thesis by simp
  next
    case True
    then have bm: "b \<le> m" and m: "0 < m" by simp_all
    have c: "copied src S m b = between src b (b + S - 1) @ copied src S m (b + S)"
      using 1(2) True by (subst copied.simps) simp
    have ih: "copied src S m (b + S)
                = concat (map (\<lambda>i. rows_of src (interval S (b + S) i)) [0..<turns S m (b + S)])"
      using 1 True by simp
    show ?thesis
      unfolding c ih turns_step [OF 1(2) bm m] map_upt_Suc_shift
      by (simp add: interval_Suc interval_0 rows_of_def)
  qed
qed

lemma turns_begin_le:
  "i < turns S m b \<Longrightarrow> fst (interval S b i) \<le> m \<and> 0 < m"
proof (induction S m b arbitrary: i rule: turns.induct)
  case (1 S m b)
  show ?case
  proof (cases "0 < S \<and> b \<le> m \<and> 0 < m")
    case False
    then have "turns S m b = 0" by (subst turns.simps) simp
    with 1(2) show ?thesis by simp
  next
    case True
    then have t: "turns S m b = Suc (turns S m (b + S))" by (subst turns.simps) simp
    show ?thesis
    proof (cases i)
      case 0
      with True show ?thesis by (simp add: interval_def)
    next
      case (Suc j)
      with 1(2) t have "j < turns S m (b + S)" by simp
      from 1(1) [OF True this] show ?thesis unfolding Suc interval_Suc .
    qed
  qed
qed

lemma turns_stop:
  "0 < S \<Longrightarrow> 0 < m \<Longrightarrow> m < fst (interval S b (turns S m b))"
proof (induction S m b rule: turns.induct)
  case (1 S m b)
  show ?case
  proof (cases "b \<le> m")
    case False
    then have "turns S m b = 0" by (subst turns.simps) simp
    with False show ?thesis by (simp add: interval_def)
  next
    case True
    with 1(2,3) have t: "turns S m b = Suc (turns S m (b + S))" by (subst turns.simps) simp
    from 1(1) 1(2,3) True have "m < fst (interval S (b + S) (turns S m (b + S)))" by simp
    then show ?thesis unfolding t interval_Suc .
  qed
qed

lemma interval_loop_selects:
  assumes S: "0 < S" and nf: "no_faults env"
  shows "\<exists>r. interval_loop env S m b (b + S - 1) rows ri w = Some r
          \<and> (\<forall>st w'. r = Inr (st, w') \<longrightarrow>
                (\<exists>evs. log w' = log w @ evs
                   \<and> selects evs = map (\<lambda>i. interval S b (Suc i)) [0..<turns S m b]))"
proof (rule interval_loop_rule [OF S])
  fix b rows ri w
  assume c: "\<not> (b \<le> m \<and> 0 < m)"
  from finish_ok [OF no_faults_outside_try_ok [OF nf], of ri w] obtain w1 where
    f: "finish env ri w = Inr ((True, None), w1)"
    and l: "log w1 = log w @ [EvCommit, LinhasInseridas ri]" by blast
  show "\<forall>st w'. finish env ri w = Inr (st, w') \<longrightarrow>
          (\<exists>evs. log w' = log w @ evs
             \<and> selects evs = map (\<lambda>i. interval S b (Suc i)) [0..<turns S m b])"
    unfolding f turns_exit [OF c] using l by simp
next
  fix b rows ri w e w'
  assume "write_rows env rows w = Inl (e, w')"
  from write_rows_log_Inl [OF this] nf have False by blast
  then show "\<forall>st w'a. Inr ((False, Some b), say (ErroDestino b (b + S - 1)) w') = Inr (st, w'a) \<longrightarrow>
          (\<exists>evs. log w'a = log w @ evs
             \<and> selects evs = map (\<lambda>i. interval S b (Suc i)) [0..<turns S m b])" ..
next
  fix b rows ri w u w2 e w'
  assume "select_between env (b + S) (b + S + S - 1) w2 = Inl (e, w')"
  from select_between_log_Inl [OF this] nf have False by blast
  then show "\<forall>st w'a. Inr ((False, Some (b + S)), say (ErroOrigem (b + S) (b + S + S - 1)) w')
               = Inr (st, w'a) \<longrightarrow>
          (\<exists>evs. log w'a = log w @ evs
             \<and> selects evs = map (\<lambda>i. interval S b (Suc i)) [0..<turns S m b])" ..
next
  fix b rows ri w u w2 rows' w3 r
  assume bm: "b \<le> m" and m: "0 < m" and wr: "write_rows env rows w = Inr (u, w2)"
    and sel: "select_between env (b + S) (b + S + S - 1) w2 = Inr (rows', w3)"
    and ih: "\<forall>st w'. r = Inr (st, w') \<longrightarrow>
          (\<exists>evs. log w' = log w3 @ evs
             \<and> selects evs = map (\<lambda>i. interval S (b + S) (Suc i)) [0..<turns S m (b + S)])"
  from write_rows_log_Inr [OF wr] obtain evs2 where
    l2: "log w2 = log w @ evs2" and s2: "selects evs2 = []" by blast
  note l3 = select_between_log_Inr [OF sel]
  show "\<forall>st w'. r = Inr (st, w') \<longrightarrow>
          (\<exists>evs. log w' = log w @ evs
             \<and> selects evs = map (\<lambda>i. interval S b (Suc i)) [0..<turns S m b])"
  proof (intro allI impI)
    fix st w'
    assume "r = Inr (st, w')"
    with ih obtain evs where l: "log w' = log w3 @ evs"
      and s: "selects evs = map (\<lambda>i. interval S (b + S) (Suc i)) [0..<turns S m (b + S)]"
      by blast
    let ?evs = "evs2 @ [EvSelect (b + S) (b + S + S - 1) (length rows')] @ evs"
    have a: "log w' = log w @ ?evs" by (simp add: l l3 l2)
    have "selects ?evs = (b + S, b + S + S - 1) # map (\<lambda>i. interval S (b + S) (Suc i)) [0..<turns S m (b + S)]"
      by (simp add: selects_append s2 s)
    also have "\<dots> = map (\<lambda>i. interval S b (Suc i)) [0..<turns S m b]"
      unfolding turns_step [OF S bm m] map_upt_Suc_shift
      by (simp add: interval_Suc interval_0)
    finally show "\<exists>evs. log w' = log w @ evs
             \<and> selects evs = map (\<lambda>i. interval S b (Suc i)) [0..<turns S m b]"
      using a by blast
  qed
qed

lemma select_between_ok:
  "no_faults env \<Longrightarrow>
     \<exists>w3. select_between env b e w = Inr (between (source env) b e, w3)
         \<and> log w3 = log w @ [EvSelect b e (length (between (source env) b e))]"
  by (simp add: select_between_def no_faults_def step_def)

lemma copy_by_key_interval_selects:
  assumes S: "0 < S" and nf: "no_faults env"
    and run: "copy_by_key_interval env k0 S t w0 = Some (Inr (st, w'))"
  shows "selects (new_events w0 w') = map (interval S k0) [0..<Suc (turns S (max_key (source env)) k0)]"
proof -
  note ok = no_faults_outside_try_ok [OF nf]
  from truncate_stg_ok [OF ok, of t "connect w0"] obtain w2 evs where
    tr: "truncate_stg env t (connect w0) = Inr ((), w2)"
    and l2: "log w2 = log w0 @ evs" and ns: "selects evs = []"
    by (auto simp: connect_def)
  from select_between_ok [OF nf, of k0 "k0 + S - 1" w2] obtain w3 where
    sel: "select_between env k0 (k0 + S - 1) w2 = Inr (between (source env) k0 (k0 + S - 1), w3)"
    and l3: "log w3 = log w2 @ [EvSelect k0 (k0 + S - 1) (length (between (source env) k0 (k0 + S - 1)))]"
    by blast
  from get_max_id_ok [OF ok, of w3] obtain w4 where
    mx: "get_max_id env w3 = Inr (max_key (source env), w4)"
    and l4: "log w4 = log w3 @ [EvMaxId (max_key (source env))]" by blast
  let ?rows = "between (source env) k0 (k0 + S - 1)"
  let ?m = "max_key (source env)"
  have c: "copy_by_key_interval env k0 S t w0
             = map_option closing (interval_loop env S ?m k0 (k0 + S - 1) ?rows 0 w4)"
    using tr sel mx by (simp add: copy_by_key_interval_unfold)
  from interval_loop_selects [OF S nf, of ?m k0 ?rows 0 w4] obtain r where
    r: "interval_loop env S ?m k0 (k0 + S - 1) ?rows 0 w4 = Some r"
    and q: "\<forall>st w'. r = Inr (st, w') \<longrightarrow>
                (\<exists>evs. log w' = log w4 @ evs
                   \<and> selects evs = map (\<lambda>i. interval S k0 (Suc i)) [0..<turns S ?m k0])"
    by blast
  from run c r have cl: "closing r = Inr (st, w')" by simp
  then obtain w'' where rr: "r = Inr (st, w'')" and lw: "log w' = log w''"
    by (auto simp: closing_def close_def split: sum.splits prod.splits)
  from q rr obtain evs' where l: "log w'' = log w4 @ evs'"
    and s: "selects evs' = map (\<lambda>i. interval S k0 (Suc i)) [0..<turns S ?m k0]" by blast
  have "new_events w0 w'
          = evs @ [EvSelect k0 (k0 + S - 1) (length ?rows)] @ [EvMaxId ?m] @ evs'"
    by (simp add: new_events_def lw l l4 l3 l2)
  then have "selects (new_events w0 w')
          = (k0, k0 + S - 1) # map (\<lambda>i. interval S k0 (Suc i)) [0..<turns S ?m k0]"
    by (simp add: selects_append ns s)
  also have "\<dots> = map (interval S k0) [0..<Suc (turns S ?m k0)]"
    unfolding map_upt_Suc_shift by (simp add: interval_0)
  finally show ?thesis .
qed

text \<open>
  C2, as stated, fails where the greatest key is not above zero. The source has one
  row, of key 0; the run from key 0 reads the interval from 0 to 9, makes no turn
  of the loop and writes nothing, though the begin 0 is not above the greatest key.
\<close>

theorem loop_stops_at_begin_not_beyond_max_counterexample:
  "copy_by_key_interval (calm [(0, ''a'')]) 0 10 True (fresh [])
     = Some (Inr ((True, None),
         \<lparr>committed = [], working = [], clock = 5,
          log = [EvTruncate, EvCommit, EvSelect 0 9 1, EvMaxId 0, EvCommit,
                 LinhasInseridas 0]\<rparr>))
   \<and> \<not> max_key (source (calm [(0, ''a'')])) < 0"
  apply (simp add: run_defs)
  apply (subst interval_loop.simps, simp add: turn_defs)+
  done

text \<open>
  C2, amended. With an interval size \<open>S\<close> above zero and no call raising, the run
  makes \<open>n\<close> turns: it reads the intervals \<open>[key_start + i * S, key_start + i * S + S - 1]\<close>
  for \<open>i = 0, ..., n\<close>, writes the rows of all of them but the last, every begin
  written is at most the greatest key, and when the greatest key is above zero the
  begin of the last interval read is the first one above it. When the greatest key
  (0 for an empty source) is not above zero, no interval is written.
\<close>

theorem intervals_of_a_run:
  assumes "0 < key_interval" and "no_faults env"
  shows "\<exists>w' n. copy_by_key_interval env key_start key_interval destination_truncate w0
                   = Some (Inr ((True, None), w'))
     \<and> selects (new_events w0 w') = map (interval key_interval key_start) [0..<Suc n]
     \<and> committed w' = (if destination_truncate then [] else committed w0)
          @ concat (map (\<lambda>i. rows_of (source env) (interval key_interval key_start i)) [0..<n])
     \<and> (\<forall>i<n. fst (interval key_interval key_start i) \<le> max_key (source env))
     \<and> (0 < max_key (source env) \<longrightarrow> max_key (source env) < fst (interval key_interval key_start n))
     \<and> (max_key (source env) \<le> 0 \<longrightarrow> n = 0)"
proof -
  let ?m = "max_key (source env)"
  let ?n = "turns key_interval ?m key_start"
  let ?base = "if destination_truncate then [] else committed w0"
  from copy_by_key_interval_outcome [OF assms(1) no_faults_outside_try_ok [OF assms(2)],
         of key_start destination_truncate w0]
  obtain r where
    r: "copy_by_key_interval env key_start key_interval destination_truncate w0 = Some r"
    and o: "outcome env key_interval (length (log w0)) r" by blast
  from o assms(2) obtain st w' where rr: "r = Inr (st, w')"
    and rep: "reported key_interval (drop (length (log w0)) (log w')) st" and ok: "fst st"
    by (cases r) (auto simp: outcome_def)
  have st: "st = (True, None)" using rep ok by (cases st) (auto simp: reported_def)
  note run = r [unfolded rr st]
  from copy_by_key_interval_resumable [OF assms(1), of env key_start destination_truncate w0] run
  have "resumable (source env) key_interval ?m key_start ?base (Inr ((True, None), w'))" by simp
  then have c: "committed w' = ?base
          @ concat (map (\<lambda>i. rows_of (source env) (interval key_interval key_start i)) [0..<?n])"
    by (simp add: resumable_def copied_turns [OF assms(1)])
  note s = copy_by_key_interval_selects [OF assms(1) assms(2) run]
  have le: "\<forall>i<?n. fst (interval key_interval key_start i) \<le> ?m"
    using turns_begin_le by blast
  have stop: "0 < ?m \<longrightarrow> ?m < fst (interval key_interval key_start ?n)"
    using turns_stop [OF assms(1)] by blast
  have zero: "?m \<le> 0 \<longrightarrow> ?n = 0"
    using turns_exit [of key_start ?m key_interval] by auto
  show ?thesis
    by (intro exI [of _ w'] exI [of _ ?n] conjI) (fact run s c le stop zero)+
qed

theorem intervals_of_a_run_witness:
  "0 < (10::int) \<and> no_faults (calm keys_to_25)
   \<and> (\<exists>w'. copy_by_key_interval (calm keys_to_25) 0 10 True (fresh [])
               = Some (Inr ((True, None), w'))
          \<and> selects (new_events (fresh []) w') = [(0, 9), (10, 19), (20, 29), (30, 39)]
          \<and> committed w' = keys_to_25)"
proof -
  have S: "0 < (10::int)" by simp
  have nf: "no_faults (calm keys_to_25)" by (simp add: no_faults_def calm_def)
  have src: "source (calm keys_to_25) = keys_to_25" by (simp add: calm_def)
  have m: "max_key keys_to_25 = 25" by (simp add: max_key_def keys_to_25_def)
  from intervals_of_a_run [OF S nf, of 0 True "fresh []"] obtain w' n where
    run: "copy_by_key_interval (calm keys_to_25) 0 10 True (fresh []) = Some (Inr ((True, None), w'))"
    and s: "selects (new_events (fresh []) w') = map (interval 10 0) [0..<Suc n]"
    and c: "committed w' = concat (map (\<lambda>i. rows_of keys_to_25 (interval 10 0 i)) [0..<n])"
    and le: "\<forall>i<n. fst (interval 10 0 i) \<le> 25"
    and stop: "25 < fst (interval 10 0 n)"
    unfolding src m by auto
  have "\<not> 3 < n"
  proof
    assume "3 < n"
    with le have "fst (interval 10 0 3) \<le> 25" by blast
    then show False by (simp add: interval_def)
  qed
  moreover have "2 < n" using stop by (simp add: interval_def)
  ultimately have n: "n = Suc (Suc (Suc 0))" by simp
  have s': "selects (new_events (fresh []) w') = [(0, 9), (10, 19), (20, 29), (30, 39)]"
    unfolding s n by (simp add: interval_def)
  have c': "committed w' = keys_to_25"
    unfolding c n by (simp add: interval_def rows_of_def between_def keys_to_25_def)
  show ?thesis using S nf run s' c' by blast
qed

section \<open>Properties of copy\_by\_key\_with\_retry\<close>

text \<open>
  C5 fails on the code. With \<open>retries = 0\<close> and a source whose every read raises,
  copy\_by\_key\_interval is called twice: the guard \<open>retry <= retries\<close> lets one retry
  through, where the docstring calls \<open>retries\<close> the greatest number of retries.
\<close>

theorem retry_once_more_than_retries:
  "copy_by_key_with_retry (unreadable two_rows) 0 10 True 0 (fresh [])
     = Some (Inr ((), \<lparr>committed = [], working = [], clock = 4,
          log = [EvTruncate, EvCommit, EvRaised (SrcSelect 0 9), ErroOrigem 0 9,
                 TentandoRetry 1, EvRaised (SrcSelect 0 9), ErroOrigem 0 9,
                 TerminoErro 0]\<rparr>))
   \<and> attempts [EvTruncate, EvCommit, EvRaised (SrcSelect 0 9), ErroOrigem 0 9,
                TentandoRetry 1, EvRaised (SrcSelect 0 9), ErroOrigem 0 9,
                TerminoErro 0] = 2"
  apply (simp add: copy_by_key_with_retry_def run_defs unreadable_def)
  apply (subst retry_loop.simps, simp add: run_defs)+
  done

section \<open>Properties of sync\_db\_2\_db\<close>

lemma zfill_show_nat_Suc:
  "0 < k \<Longrightarrow> zfill (Suc k) (show_nat n) = zfill k (show_nat (n div 10)) @ [digit (n mod 10)]"
proof (cases "n < 10")
  case True
  assume k: "0 < k"
  have a: "show_nat n = [digit n]" using True by (subst show_nat.simps) simp
  have b: "show_nat 0 = [digit 0]" by (subst show_nat.simps) simp
  have "replicate k (CHR ''0'') = replicate (k - 1) (CHR ''0'') @ [digit 0]"
    using k by (cases k) (simp_all add: digit_def replicate_append_same)
  then show ?thesis using True by (simp add: a b zfill_def)
next
  case False
  have a: "show_nat n = show_nat (n div 10) @ [digit (n mod 10)]"
    using False by (subst show_nat.simps) simp
  show ?thesis unfolding a by (simp add: zfill_def)
qed

lemma zfill_6_split:
  "\<exists>c1 c2 c3. zfill 6 (show_nat n) = zfill 3 (show_nat (n div 1000)) @ [c1, c2, c3]"
proof -
  have a: "zfill 6 (show_nat n) = zfill 5 (show_nat (n div 10)) @ [digit (n mod 10)]"
    using zfill_show_nat_Suc [of 5 n] by simp
  have b: "zfill 5 (show_nat (n div 10))
             = zfill 4 (show_nat (n div 10 div 10)) @ [digit (n div 10 mod 10)]"
    using zfill_show_nat_Suc [of 4 "n div 10"] by simp
  have c: "zfill 4 (show_nat (n div 10 div 10))
             = zfill 3 (show_nat (n div 10 div 10 div 10)) @ [digit (n div 10 div 10 mod 10)]"
    using zfill_show_nat_Suc [of 3 "n div 10 div 10"] by simp
  have d: "n div 10 div 10 div 10 = n div 1000" by (simp add: div_mult2_eq [symmetric])
  show ?thesis unfolding a b c d by simp
qed

lemma but_last3_strftime: "but_last3 (strftime d) = milliseconds d"
proof -
  obtain c1 c2 c3 where
    "zfill 6 (show_nat (microsecond d)) = zfill 3 (show_nat (microsecond d div 1000)) @ [c1, c2, c3]"
    using zfill_6_split by blast
  then show ?thesis by (simp add: but_last3_def strftime_def milliseconds_def)
qed

lemma build_filter_condition_Inl:
  "build_filter_condition gf t dc k = Inl e \<Longrightarrow> e = AttributeError"
  by (auto simp: build_filter_condition_def Let_def split: if_splits dbvalue.splits)

text \<open>
  C9. With a connection of type mssql or postgres: when the count of the rows of the
  destination is zero, sync\_db\_2\_db raises its exception after two calls only, the
  columns of the table and the count, so before any staging copy, index rebuild,
  merge or delete; when the count is not zero the function does not raise that
  exception and goes on to the query of the maximum.
\<close>

theorem empty_destination_is_fatal:
  assumes "conn_type db = ''mssql'' \<or> conn_type db = ''postgres''"
  shows "(get_first db Dest (''SELECT COUNT(*) FROM '' @ destination_schema @ ''.'' @ table @ '';'')
            = VInt 0 \<longrightarrow>
          sync_db_2_db db table date_column key_column source_schema destination_schema
            increment_schema sync_exclusions source_exc_schema source_exc_table
            source_exc_column chunksize
          = (Inl (Exception empty_message),
             [GetTableColsName destination_schema table,
              GetFirst Dest (''SELECT COUNT(*) FROM '' @ destination_schema @ ''.'' @ table @ '';'')]))
       \<and> (get_first db Dest (''SELECT COUNT(*) FROM '' @ destination_schema @ ''.'' @ table @ '';'')
            \<noteq> VInt 0 \<longrightarrow>
          fst (sync_db_2_db db table date_column key_column source_schema destination_schema
            increment_schema sync_exclusions source_exc_schema source_exc_table
            source_exc_column chunksize) \<noteq> Inl (Exception empty_message)
          \<and> take 3 (snd (sync_db_2_db db table date_column key_column source_schema
                destination_schema increment_schema sync_exclusions source_exc_schema
                source_exc_table source_exc_column chunksize))
             = [GetTableColsName destination_schema table,
                GetFirst Dest (''SELECT COUNT(*) FROM '' @ destination_schema @ ''.'' @ table @ '';''),
                GetFirst Dest (build_filter_sql (destination_schema @ ''.'' @ table)
                                 date_column key_column)])"
  using assms
  by (auto simp: sync_db_2_db_def Let_def table_rows_count_sql_def empty_message_def
           split: sum.splits prod.splits dest: build_filter_condition_Inl)

lemma sample_count: "get_first sample_db Dest ''SELECT COUNT(*) FROM stg.pessoa;'' = VInt 10"
  by (simp add: sample_db_def)

theorem empty_destination_is_fatal_witness:
  "(conn_type empty_db = ''mssql'' \<or> conn_type empty_db = ''postgres'')
   \<and> sync_db_2_db empty_db ''pessoa'' None ''id'' ''quartzo'' ''stg'' None False None None None 1000
       = (Inl (Exception empty_message),
          [GetTableColsName ''stg'' ''pessoa'', GetFirst Dest ''SELECT COUNT(*) FROM stg.pessoa;''])
   \<and> (conn_type sample_db = ''mssql'' \<or> conn_type sample_db = ''postgres'')
   \<and> fst (sync_db_2_db sample_db ''pessoa'' None ''id'' ''quartzo'' ''stg'' None False None None
            None 1000) \<noteq> Inl (Exception empty_message)"
proof -
  have c1: "conn_type empty_db = ''mssql'' \<or> conn_type empty_db = ''postgres''"
    by (simp add: empty_db_def sample_db_def)
  have c2: "conn_type sample_db = ''mssql'' \<or> conn_type sample_db = ''postgres''"
    by (simp add: sample_db_def)
  have z: "get_first empty_db Dest (''SELECT COUNT(*) FROM '' @ ''stg'' @ ''.'' @ ''pessoa'' @ '';'')
             = VInt 0"
    by (simp add: empty_db_def)
  have n: "get_first sample_db Dest (''SELECT COUNT(*) FROM '' @ ''stg'' @ ''.'' @ ''pessoa'' @ '';'')
             \<noteq> VInt 0"
    using sample_count by simp
  note a = empty_destination_is_fatal [OF c1, of "''stg''" "''pessoa''" None "''id''"
             "''quartzo''" None False None None None 1000, THEN conjunct1, rule_format, OF z]
  note b = empty_destination_is_fatal [OF c2, of "''stg''" "''pessoa''" None "''id''"
             "''quartzo''" None False None None None 1000, THEN conjunct2, rule_format, OF n,
             THEN conjunct1]
  show ?thesis using c1 c2 a b by simp
qed

lemma sample_cols: "''dataalteracao'' \<notin> set (table_cols sample_db)"
  by (simp add: sample_db_def)

lemma show_nat_digit: "n < 10 \<Longrightarrow> show_nat n = [digit n]"
  by (subst show_nat.simps) simp

lemma show_nat_more: "\<not> n < 10 \<Longrightarrow> show_nat n = show_nat (n div 10) @ [digit (n mod 10)]"
  by (subst show_nat.simps) simp

lemma sample_filter:
  "build_filter_condition (get_first sample_db Dest) ''stg.pessoa'' (Some ''dataalteracao'') ''id''
     = Inr (''2021-03-07 09:05:00.123'',
            ''dataalteracao > '' @ [CHR 0x27] @ ''2021-03-07 09:05:00.123'' @ [CHR 0x27])"
  by (simp add: build_filter_condition_def build_filter_sql_def truthy_def fmt_def Let_def
        sample_db_def sample_time_def but_last3_strftime milliseconds_def date_time_def
        month_to_second_def zfill_def
        show_nat_digit show_nat_more digit_def)

text \<open>
  C8, as stated, fails: the date column is not looked up in the columns of the
  destination. Here they are id and nome, and the column dataalteracao is the
  reference column all the same.
\<close>

theorem date_column_not_checked_counterexample:
  "''dataalteracao'' \<notin> set (table_cols sample_db)
   \<and> snd (sync_db_2_db sample_db ''pessoa'' (Some ''dataalteracao'') ''id'' ''quartzo'' ''stg''
             None False None None None 1000) ! 2
       = GetFirst Dest ''SELECT MAX(dataalteracao) FROM stg.pessoa''
   \<and> build_filter_condition (get_first sample_db Dest) ''stg.pessoa'' (Some ''dataalteracao'') ''id''
       = Inr (''2021-03-07 09:05:00.123'',
              ''dataalteracao > '' @ [CHR 0x27] @ ''2021-03-07 09:05:00.123'' @ [CHR 0x27])"
proof -
  have c: "conn_type sample_db = ''mssql''" by (simp add: sample_db_def)
  have f: "build_filter_condition (get_first sample_db Dest) (''stg'' @ ''.'' @ ''pessoa'')
             (Some ''dataalteracao'') ''id''
     = Inr (''2021-03-07 09:05:00.123'',
            ''dataalteracao > '' @ [CHR 0x27] @ ''2021-03-07 09:05:00.123'' @ [CHR 0x27])"
    using sample_filter by simp
  have n: "get_first sample_db Dest (table_rows_count_sql (''stg'' @ ''.'' @ ''pessoa'') None) \<noteq> VInt 0"
    using sample_count by (simp add: table_rows_count_sql_def)
  have "snd (sync_db_2_db sample_db ''pessoa'' (Some ''dataalteracao'') ''id'' ''quartzo'' ''stg''
             None False None None None 1000) ! 2
       = GetFirst Dest (build_filter_sql (''stg'' @ ''.'' @ ''pessoa'') (Some ''dataalteracao'') ''id'')"
    unfolding sync_db_2_db_def Let_def using c n f
    by (simp split: prod.splits)
  then show ?thesis using sample_cols sample_filter
    by (simp add: build_filter_sql_def truthy_def fmt_def)
qed

text \<open>
  C8, amended. The date column is the reference column whenever it is given and not
  empty, whether or not the destination has it; otherwise the key column is. The
  maximum of the reference column is asked of the destination table; the maximum of
  the date column is written to the millisecond; the condition is the reference
  column, \<open>>\<close>, and the maximum between quotes.
\<close>

theorem filter_condition_reference:
  "(truthy date_column \<longrightarrow>
      dest_get_first (''SELECT MAX('' @ fmt date_column @ '') FROM '' @ table) = VDatetime d \<longrightarrow>
      build_filter_condition dest_get_first table date_column key_column
        = Inr (milliseconds d,
               fmt date_column @ '' > '' @ [CHR 0x27] @ milliseconds d @ [CHR 0x27]))
   \<and> (\<not> truthy date_column \<longrightarrow>
      build_filter_condition dest_get_first table date_column key_column
        = Inr (str (dest_get_first (''SELECT MAX('' @ key_column @ '') FROM '' @ table)),
               key_column @ '' > '' @ [CHR 0x27]
               @ str (dest_get_first (''SELECT MAX('' @ key_column @ '') FROM '' @ table))
               @ [CHR 0x27]))
   \<and> (conn_type db = ''mssql'' \<or> conn_type db = ''postgres'' \<longrightarrow>
      get_first db Dest (table_rows_count_sql (destination_schema @ ''.'' @ tab) None) \<noteq> VInt 0 \<longrightarrow>
      snd (sync_db_2_db db tab date_column key_column source_schema destination_schema
             increment_schema sync_exclusions source_exc_schema source_exc_table
             source_exc_column chunksize) ! 2
        = GetFirst Dest (build_filter_sql (destination_schema @ ''.'' @ tab) date_column key_column))"
proof (intro conjI impI)
  assume "truthy date_column"
    and "dest_get_first (''SELECT MAX('' @ fmt date_column @ '') FROM '' @ table) = VDatetime d"
  then show "build_filter_condition dest_get_first table date_column key_column
        = Inr (milliseconds d,
               fmt date_column @ '' > '' @ [CHR 0x27] @ milliseconds d @ [CHR 0x27])"
    by (simp add: build_filter_condition_def build_filter_sql_def Let_def but_last3_strftime)
next
  assume "\<not> truthy date_column"
  then show "build_filter_condition dest_get_first table date_column key_column
        = Inr (str (dest_get_first (''SELECT MAX('' @ key_column @ '') FROM '' @ table)),
               key_column @ '' > '' @ [CHR 0x27]
               @ str (dest_get_first (''SELECT MAX('' @ key_column @ '') FROM '' @ table))
               @ [CHR 0x27])"
    by (simp add: build_filter_condition_def build_filter_sql_def Let_def)
next
  assume c: "conn_type db = ''mssql'' \<or> conn_type db = ''postgres''"
    and n: "get_first db Dest (table_rows_count_sql (destination_schema @ ''.'' @ tab) None) \<noteq> VInt 0"
  show "snd (sync_db_2_db db tab date_column key_column source_schema destination_schema
             increment_schema sync_exclusions source_exc_schema source_exc_table
             source_exc_column chunksize) ! 2
        = GetFirst Dest (build_filter_sql (destination_schema @ ''.'' @ tab) date_column key_column)"
    unfolding sync_db_2_db_def Let_def using c n
    by (auto split: prod.splits sum.splits)
qed

theorem filter_condition_reference_witness:
  "truthy (Some ''dataalteracao'')
   \<and> get_first sample_db Dest (''SELECT MAX('' @ fmt (Some ''dataalteracao'') @ '') FROM '' @ ''stg.pessoa'')
       = VDatetime sample_time
   \<and> build_filter_condition (get_first sample_db Dest) ''stg.pessoa'' (Some ''dataalteracao'') ''id''
       = Inr (milliseconds sample_time,
              ''dataalteracao > '' @ [CHR 0x27] @ milliseconds sample_time @ [CHR 0x27])
   \<and> milliseconds sample_time = ''2021-03-07 09:05:00.123''
   \<and> build_filter_condition (\<lambda>sql. VDatetime old_time) ''stg.pessoa'' (Some ''dataalteracao'') ''id''
       = Inr (''999-03-07 09:05:00.123'',
              ''dataalteracao > '' @ [CHR 0x27] @ ''999-03-07 09:05:00.123'' @ [CHR 0x27])
   \<and> \<not> truthy None
   \<and> build_filter_condition (get_first sample_db Dest) ''stg.pessoa'' None ''id''
       = Inr (''42'', ''id > '' @ [CHR 0x27] @ ''42'' @ [CHR 0x27])
   \<and> (conn_type sample_db = ''mssql'' \<or> conn_type sample_db = ''postgres'')
   \<and> get_first sample_db Dest (table_rows_count_sql (''stg'' @ ''.'' @ ''pessoa'') None) \<noteq> VInt 0
   \<and> snd (sync_db_2_db sample_db ''pessoa'' None ''id'' ''quartzo'' ''stg'' None False None None
             None 1000) ! 2
       = GetFirst Dest ''SELECT MAX(id) FROM stg.pessoa''"
proof -
  have t: "truthy (Some ''dataalteracao'')" by (simp add: truthy_def)
  have g: "get_first sample_db Dest (''SELECT MAX('' @ fmt (Some ''dataalteracao'') @ '') FROM '' @ ''stg.pessoa'')
       = VDatetime sample_time"
    by (simp add: sample_db_def fmt_def)
  have nt: "\<not> truthy None" by (simp add: truthy_def)
  have c: "conn_type sample_db = ''mssql'' \<or> conn_type sample_db = ''postgres''"
    by (simp add: sample_db_def)
  have n: "get_first sample_db Dest (table_rows_count_sql (''stg'' @ ''.'' @ ''pessoa'') None) \<noteq> VInt 0"
    using sample_count by (simp add: table_rows_count_sql_def)
  have k: "str (get_first sample_db Dest (''SELECT MAX('' @ ''id'' @ '') FROM '' @ ''stg.pessoa'')) = ''42''"
    by (simp add: sample_db_def str_def show_int_def show_nat_digit show_nat_more digit_def)
  note a = filter_condition_reference [of "Some ''dataalteracao''" "get_first sample_db Dest"
             "''stg.pessoa''" sample_time "''id''", THEN conjunct1, rule_format, OF t g]
  note b = filter_condition_reference [of None "get_first sample_db Dest"
             "''stg.pessoa''" sample_time "''id''", THEN conjunct2, THEN conjunct1, rule_format,
             OF nt]
  note d = filter_condition_reference [of None "get_first sample_db Dest"
             "''stg.pessoa''" sample_time "''id''" sample_db "''stg''" "''pessoa''" "''quartzo''"
             None False None None None 1000,
             THEN conjunct2, THEN conjunct2, rule_format, OF c n]
  have a': "build_filter_condition (get_first sample_db Dest) ''stg.pessoa'' (Some ''dataalteracao'') ''id''
       = Inr (milliseconds sample_time,
              ''dataalteracao > '' @ [CHR 0x27] @ milliseconds sample_time @ [CHR 0x27])"
    using a by (simp add: fmt_def)
  have b': "build_filter_condition (get_first sample_db Dest) ''stg.pessoa'' None ''id''
       = Inr (''42'', ''id > '' @ [CHR 0x27] @ ''42'' @ [CHR 0x27])"
    using b k by simp
  have d': "snd (sync_db_2_db sample_db ''pessoa'' None ''id'' ''quartzo'' ''stg'' None False None None
             None 1000) ! 2
       = GetFirst Dest ''SELECT MAX(id) FROM stg.pessoa''"
    using d by (simp add: build_filter_sql_def truthy_def)
  have m: "milliseconds sample_time = ''2021-03-07 09:05:00.123''"
    by (simp add: milliseconds_def date_time_def month_to_second_def zfill_def sample_time_def
          show_nat_digit show_nat_more digit_def)
  have mo: "milliseconds old_time = ''999-03-07 09:05:00.123''"
    by (simp add: milliseconds_def date_time_def month_to_second_def zfill_def old_time_def
          show_nat_digit show_nat_more digit_def)
  have go: "(\<lambda>sql. VDatetime old_time)
              (''SELECT MAX('' @ fmt (Some ''dataalteracao'') @ '') FROM '' @ ''stg.pessoa'')
            = VDatetime old_time" by simp
  note e = filter_condition_reference [of "Some ''dataalteracao''" "\<lambda>sql. VDatetime old_time"
             "''stg.pessoa''" old_time "''id''", THEN conjunct1, rule_format, OF t go]
  have e': "build_filter_condition (\<lambda>sql. VDatetime old_time) ''stg.pessoa''
              (Some ''dataalteracao'') ''id''
       = Inr (''999-03-07 09:05:00.123'',
              ''dataalteracao > '' @ [CHR 0x27] @ ''999-03-07 09:05:00.123'' @ [CHR 0x27])"
    using e unfolding mo by (simp add: fmt_def)
  show ?thesis
    by (intro conjI) (fact t g a' m e' nt b' c n d')+
qed

lemma build_incremental_sqls_render:
  "build_incremental_sqls dest_table source_table key_column column_list
     = (render (updates_stmt dest_table source_table key_column column_list),
        render (inserts_stmt dest_table source_table key_column column_list))"
  by (simp add: build_incremental_sqls_def Let_def updates_stmt_def inserts_stmt_def comp_def)

lemma map_of_sets:
  "map_of (map (\<lambda>col. (col, Col ''orig'' col)) cols) c
     = (if c \<in> set cols then Some (Col ''orig'' c) else None)"
  by (induction cols) auto

lemma map_of_zip_self:
  "map_of (zip cols (map f cols)) c = (if c \<in> set cols then Some (f c) else None)"
  by (induction cols) auto

lemma exec_updates_stmt:
  assumes "dest_table \<noteq> ''orig''"
  shows "exec pick (updates_stmt dest_table source_table key_column column_list) tabs
           = tabs(dest_table := run_updates pick column_list key_column (tabs dest_table)
                                   (tabs source_table))"
proof -
  have a: "assign [(''orig'', s), (dest_table, d)] (map (\<lambda>col. (col, Col ''orig'' col)) column_list) d
             = set_columns column_list s d" for s d
    by (rule ext) (simp add: assign_def set_columns_def map_of_sets)
  have j: "sql_eq (column_value [(''orig'', s), (dest_table, d)] (Col ''orig'' key_column))
                  (column_value [(''orig'', s), (dest_table, d)] (Col dest_table key_column))
             = same_key key_column d s" for s d
    using assms by (simp add: same_key_def)
  show ?thesis
    unfolding updates_stmt_def exec.simps j a run_updates_def by (rule refl)
qed

lemma sql_eq_commute: "sql_eq a b = sql_eq b a"
  by (auto simp: sql_eq_def)

lemma exec_inserts_stmt:
  "exec pick (inserts_stmt dest_table source_table key_column column_list) tabs
     = tabs(dest_table := run_inserts column_list key_column (tabs dest_table) (tabs source_table))"
proof -
  have a: "row_of column_list (map inc column_list) = project column_list inc" for inc
    by (rule ext) (simp add: row_of_def project_def map_of_zip_self)
  have g: "guard_holds tabs [(''inc'', inc)]
             (NotExists dest_table ''atual'' (Col ''atual'' key_column) (Col ''inc'' key_column))
           = (\<not> list_ex (\<lambda>atual. same_key key_column atual inc) (tabs dest_table))" for inc
    by (simp add: same_key_def sql_eq_commute [of "inc key_column"])
  show ?thesis
    unfolding inserts_stmt_def exec.simps g a run_inserts_def by (rule refl)
qed

lemma run_updates_row:
  assumes "\<forall>d joined. joined \<noteq> [] \<longrightarrow> pick d joined \<in> set joined"
  shows "updated column_list key_column staging d
           (let joined = filter (same_key key_column d) staging
            in if joined = [] then d else set_columns column_list (pick d joined) d)"
proof (cases "filter (same_key key_column d) staging = []")
  case True
  then have "\<not> list_ex (same_key key_column d) staging"
    by (simp add: list_ex_iff filter_empty_conv)
  with True show ?thesis by (simp add: updated_def)
next
  case False
  with assms have "pick d (filter (same_key key_column d) staging)
                     \<in> set (filter (same_key key_column d) staging)" by blast
  then have p: "pick d (filter (same_key key_column d) staging) \<in> set staging"
    and k: "same_key key_column d (pick d (filter (same_key key_column d) staging))" by simp_all
  from p k have "list_ex (same_key key_column d) staging" unfolding list_ex_iff by blast
  moreover from p k have
    "list_ex (\<lambda>s. same_key key_column d s
               \<and> set_columns column_list (pick d (filter (same_key key_column d) staging)) d
                   = set_columns column_list s d) staging"
    unfolding list_ex_iff by blast
  ultimately show ?thesis using False by (simp add: updated_def)
qed

lemma run_updates_updated:
  assumes "\<forall>d joined. joined \<noteq> [] \<longrightarrow> pick d joined \<in> set joined"
  shows "list_all2 (updated column_list key_column staging) dest
           (run_updates pick column_list key_column dest staging)"
  unfolding run_updates_def list_all2_map2
  by (rule list_all2_refl) (rule run_updates_row [OF assms])

lemma updated_key:
  assumes "updated column_list key_column staging d d'"
  shows "d' key_column = d key_column"
proof (cases "list_ex (same_key key_column d) staging")
  case True
  with assms obtain s where "same_key key_column d s" and "d' = set_columns column_list s d"
    by (auto simp: updated_def list_ex_iff)
  then show ?thesis by (simp add: set_columns_def same_key_def sql_eq_def)
next
  case False
  with assms show ?thesis by (simp add: updated_def)
qed

lemma run_updates_keys:
  assumes "\<forall>d joined. joined \<noteq> [] \<longrightarrow> pick d joined \<in> set joined"
  shows "map (\<lambda>d. d key_column) (run_updates pick column_list key_column dest staging)
           = map (\<lambda>d. d key_column) dest"
proof -
  have "list_all2 (\<lambda>d d'. d' key_column = d key_column) dest
          (run_updates pick column_list key_column dest staging)"
    by (rule list_all2_mono [OF run_updates_updated [OF assms]]) (rule updated_key)
  then have "list_all2 (\<lambda>x y. x = y) (map (\<lambda>d. d key_column) dest)
          (map (\<lambda>d. d key_column) (run_updates pick column_list key_column dest staging))"
    by (simp add: list_all2_map1 list_all2_map2 eq_commute)
  then show ?thesis by (simp add: list_all2_eq [symmetric])
qed

lemma list_ex_same_key:
  assumes "map (\<lambda>d. d key_column) xs = map (\<lambda>d. d key_column) ys"
  shows "list_ex (\<lambda>atual. same_key key_column atual inc) xs
           = list_ex (\<lambda>atual. same_key key_column atual inc) ys"
proof -
  have a: "list_ex (\<lambda>atual. same_key key_column atual inc) zs
          = (\<exists>v \<in> (\<lambda>d. d key_column) ` set zs. sql_eq (inc key_column) v)" for zs
    unfolding list_ex_iff same_key_def by blast
  from assms have "set (map (\<lambda>d. d key_column) xs) = set (map (\<lambda>d. d key_column) ys)"
    by (rule arg_cong)
  then have "(\<lambda>d. d key_column) ` set xs = (\<lambda>d. d key_column) ` set ys"
    unfolding set_map .
  then show ?thesis unfolding a by (rule arg_cong)
qed

lemma merge_rows:
  assumes "\<forall>d joined. joined \<noteq> [] \<longrightarrow> pick d joined \<in> set joined"
  shows "run_inserts column_list key_column
           (run_updates pick column_list key_column dest staging) staging'
         = run_updates pick column_list key_column dest staging
           @ map (project column_list)
               (filter (\<lambda>inc. \<not> list_ex (\<lambda>atual. same_key key_column atual inc) dest) staging')"
  unfolding run_inserts_def list_ex_same_key [OF run_updates_keys [OF assms]] by (rule refl)

lemma dotted_not_orig: "schema @ ''.'' @ table \<noteq> ''orig''"
proof
  assume a: "schema @ ''.'' @ table = ''orig''"
  have "CHR ''.'' \<in> set (schema @ ''.'' @ table)" by simp
  then have "CHR ''.'' \<in> set ''orig''" unfolding a .
  then show False by simp
qed


lemma not_exists_guard_render:
  "not_exists_guard dest_table key_column
     = render_guard (NotExists dest_table ''atual'' (Col ''atual'' key_column) (Col ''inc'' key_column))"
  by (simp add: not_exists_guard_def)

lemma inserts_stmt_guard:
  "sublist (not_exists_guard dest_table key_column)
     (render (inserts_stmt dest_table source_table key_column column_list))"
proof -
  have "\<exists>ps ss. render (inserts_stmt dest_table source_table key_column column_list)
                  = ps @ not_exists_guard dest_table key_column @ ss"
    unfolding inserts_stmt_def render.simps not_exists_guard_render
    by (rule exI [of _ "''INSERT INTO '' @ dest_table @ '' ('' @ join '', '' column_list @ '')'' @ nl
            @ sp 12 @ ''SELECT '' @ join '', '' column_list @ nl
            @ sp 12 @ ''FROM '' @ source_table @ '' AS '' @ ''inc'' @ nl @ sp 12"],
        rule exI [of _ "nl @ sp 12"]) simp
  then show ?thesis by (auto simp: sublist_def)
qed

lemma inserts_stmt_head:
  "\<exists>rest. render (inserts_stmt dest_table source_table key_column column_list) = CHR ''I'' # rest"
  by (simp add: inserts_stmt_def)

lemma updates_stmt_head:
  "\<exists>rest. render (updates_stmt dest_table source_table key_column column_list) = CHR 0x0A # rest"
  by (simp add: updates_stmt_def nl_def)

lemma reindex_sql_head:
  "\<exists>c rest. reindex_sql conn inc = c # rest \<and> c \<noteq> CHR ''I''"
  by (simp add: reindex_sql_def)

lemma sync_trace:
  assumes "conn_type db = ''mssql'' \<or> conn_type db = ''postgres''"
    and "get_first db Dest (table_rows_count_sql (destination_schema @ ''.'' @ table) None) \<noteq> VInt 0"
    and "build_filter_condition (get_first db Dest) (destination_schema @ ''.'' @ table)
           date_column key_column = Inr (ref_value, where_condition)"
    and "build_incremental_sqls (destination_schema @ ''.'' @ table)
           (inc_table destination_schema increment_schema table) key_column (table_cols db)
           = (updates_sql, inserts_sql)"
  shows "snd (sync_db_2_db db table date_column key_column source_schema destination_schema
            increment_schema sync_exclusions source_exc_schema source_exc_table
            source_exc_column chunksize)
         = [GetTableColsName destination_schema table,
            GetFirst Dest (table_rows_count_sql (destination_schema @ ''.'' @ table) None),
            GetFirst Dest (build_filter_sql (destination_schema @ ''.'' @ table) date_column key_column),
            GetFirst Source (table_rows_count_sql (source_schema @ ''.'' @ table) (Some where_condition)),
            CopyDbToDb (inc_table destination_schema increment_schema table)
              (build_select_sql (source_schema @ ''.'' @ table) (table_cols db)
                 @ '' WHERE '' @ where_condition)
              (if conn_type db = ''mssql'' then MSSQL else PG) True chunksize,
            Run Dest (reindex_sql (conn_type db) (inc_table destination_schema increment_schema table))]
           @ [Run Dest updates_sql, Run Dest inserts_sql]
           @ (if sync_exclusions
              then delete_exclusions db (destination_schema @ ''.'' @ table) key_column
                     source_exc_schema source_exc_table source_exc_column ref_value
              else [])"
  unfolding sync_db_2_db_def Let_def using assms by auto

text \<open>
  C7. The two texts that \_build\_incremental\_sqls gives are the UPDATE that sets every
  tracked column from the staging row of the same key and the INSERT of the staging
  rows under the NOT EXISTS subquery on the key column. When sync\_db\_2\_db reaches
  its merge it runs the UPDATE right before the INSERT, which it does not run
  earlier. On the tables of the database, the UPDATE leaves every row of the
  destination where it is: a row whose key is the key of staging rows takes the
  tracked columns of one of them, any other row is unchanged; then the INSERT
  appends exactly the staging rows whose key no row of the destination had, so that
  a staged key is updated or inserted and not both.
\<close>

theorem update_then_insert_missing:
  assumes "conn_type db = ''mssql'' \<or> conn_type db = ''postgres''"
    and "get_first db Dest (table_rows_count_sql (destination_schema @ ''.'' @ table) None) \<noteq> VInt 0"
    and "build_filter_condition (get_first db Dest) (destination_schema @ ''.'' @ table)
           date_column key_column = Inr (ref_value, where_condition)"
    and "\<forall>d joined. joined \<noteq> [] \<longrightarrow> pick d joined \<in> set joined"
  shows "\<exists>before after.
      build_incremental_sqls (destination_schema @ ''.'' @ table)
        (inc_table destination_schema increment_schema table) key_column (table_cols db)
        = (render (updates_stmt (destination_schema @ ''.'' @ table)
                     (inc_table destination_schema increment_schema table) key_column
                     (table_cols db)),
           render (inserts_stmt (destination_schema @ ''.'' @ table)
                     (inc_table destination_schema increment_schema table) key_column
                     (table_cols db)))
    \<and> snd (sync_db_2_db db table date_column key_column source_schema destination_schema
            increment_schema sync_exclusions source_exc_schema source_exc_table
            source_exc_column chunksize)
        = before
          @ [Run Dest (render (updates_stmt (destination_schema @ ''.'' @ table)
                         (inc_table destination_schema increment_schema table) key_column
                         (table_cols db))),
             Run Dest (render (inserts_stmt (destination_schema @ ''.'' @ table)
                         (inc_table destination_schema increment_schema table) key_column
                         (table_cols db)))]
          @ after
    \<and> Run Dest (render (inserts_stmt (destination_schema @ ''.'' @ table)
                   (inc_table destination_schema increment_schema table) key_column
                   (table_cols db))) \<notin> set before
    \<and> render (updates_stmt (destination_schema @ ''.'' @ table)
                (inc_table destination_schema increment_schema table) key_column (table_cols db))
        \<noteq> render (inserts_stmt (destination_schema @ ''.'' @ table)
                (inc_table destination_schema increment_schema table) key_column (table_cols db))
    \<and> sublist (not_exists_guard (destination_schema @ ''.'' @ table) key_column)
        (render (inserts_stmt (destination_schema @ ''.'' @ table)
                   (inc_table destination_schema increment_schema table) key_column
                   (table_cols db)))
    \<and> exec pick (updates_stmt (destination_schema @ ''.'' @ table)
                   (inc_table destination_schema increment_schema table) key_column
                   (table_cols db)) tabs
        = tabs(destination_schema @ ''.'' @ table :=
                 run_updates pick (table_cols db) key_column
                   (tabs (destination_schema @ ''.'' @ table))
                   (tabs (inc_table destination_schema increment_schema table)))
    \<and> exec pick (inserts_stmt (destination_schema @ ''.'' @ table)
                   (inc_table destination_schema increment_schema table) key_column
                   (table_cols db)) tabs
        = tabs(destination_schema @ ''.'' @ table :=
                 run_inserts (table_cols db) key_column
                   (tabs (destination_schema @ ''.'' @ table))
                   (tabs (inc_table destination_schema increment_schema table)))
    \<and> list_all2 (updated (table_cols db) key_column
                   (tabs (inc_table destination_schema increment_schema table)))
        (tabs (destination_schema @ ''.'' @ table))
        (exec pick (updates_stmt (destination_schema @ ''.'' @ table)
                      (inc_table destination_schema increment_schema table) key_column
                      (table_cols db)) tabs (destination_schema @ ''.'' @ table))
    \<and> exec pick (inserts_stmt (destination_schema @ ''.'' @ table)
                   (inc_table destination_schema increment_schema table) key_column
                   (table_cols db))
          (exec pick (updates_stmt (destination_schema @ ''.'' @ table)
                        (inc_table destination_schema increment_schema table) key_column
                        (table_cols db)) tabs)
          (destination_schema @ ''.'' @ table)
        = exec pick (updates_stmt (destination_schema @ ''.'' @ table)
                       (inc_table destination_schema increment_schema table) key_column
                       (table_cols db)) tabs (destination_schema @ ''.'' @ table)
          @ map (project (table_cols db))
              (filter (\<lambda>inc. \<not> list_ex (\<lambda>atual. same_key key_column atual inc)
                                  (tabs (destination_schema @ ''.'' @ table)))
                 (exec pick (updates_stmt (destination_schema @ ''.'' @ table)
                               (inc_table destination_schema increment_schema table) key_column
                               (table_cols db)) tabs
                    (inc_table destination_schema increment_schema table)))
    \<and> (inc_table destination_schema increment_schema table \<noteq> destination_schema @ ''.'' @ table
        \<longrightarrow> exec pick (updates_stmt (destination_schema @ ''.'' @ table)
                         (inc_table destination_schema increment_schema table) key_column
                         (table_cols db)) tabs
              (inc_table destination_schema increment_schema table)
            = tabs (inc_table destination_schema increment_schema table))"
proof -
  let ?dest = "destination_schema @ ''.'' @ table"
  let ?inc = "inc_table destination_schema increment_schema table"
  let ?cols = "table_cols db"
  let ?U = "updates_stmt ?dest ?inc key_column ?cols"
  let ?I = "inserts_stmt ?dest ?inc key_column ?cols"
  let ?before = "[GetTableColsName destination_schema table,
            GetFirst Dest (table_rows_count_sql ?dest None),
            GetFirst Dest (build_filter_sql ?dest date_column key_column),
            GetFirst Source (table_rows_count_sql (source_schema @ ''.'' @ table) (Some where_condition)),
            CopyDbToDb ?inc
              (build_select_sql (source_schema @ ''.'' @ table) (table_cols db)
                 @ '' WHERE '' @ where_condition)
              (if conn_type db = ''mssql'' then MSSQL else PG) True chunksize,
            Run Dest (reindex_sql (conn_type db) ?inc)]"
  let ?after = "if sync_exclusions
              then delete_exclusions db ?dest key_column
                     source_exc_schema source_exc_table source_exc_column ref_value
              else []"
  note b = build_incremental_sqls_render [of ?dest ?inc key_column ?cols]
  note t = sync_trace [OF assms(1) assms(2) assms(3) b, where source_schema = source_schema
             and chunksize = chunksize and sync_exclusions = sync_exclusions
             and source_exc_schema = source_exc_schema and source_exc_table = source_exc_table
             and source_exc_column = source_exc_column]
  obtain rest where h: "render ?I = CHR ''I'' # rest"
    using inserts_stmt_head [of ?dest ?inc key_column ?cols] by blast
  obtain rest2 where h2: "render ?U = CHR 0x0A # rest2"
    using updates_stmt_head [of ?dest ?inc key_column ?cols] by blast
  obtain c rest' where r: "reindex_sql (conn_type db) ?inc = c # rest'" and c: "c \<noteq> CHR ''I''"
    using reindex_sql_head by blast
  have nb: "Run Dest (render ?I) \<notin> set ?before"
    unfolding h r using c by simp
  have ne: "render ?U \<noteq> render ?I"
    unfolding h h2 by simp
  note g = inserts_stmt_guard [of ?dest key_column ?inc ?cols]
  note u = exec_updates_stmt [OF dotted_not_orig, of pick destination_schema table ?inc
             key_column ?cols tabs]
  note i = exec_inserts_stmt [of pick ?dest ?inc key_column ?cols tabs]
  have ud: "exec pick ?U tabs ?dest = run_updates pick ?cols key_column (tabs ?dest) (tabs ?inc)"
    unfolding u by simp
  have l: "list_all2 (updated ?cols key_column (tabs ?inc)) (tabs ?dest) (exec pick ?U tabs ?dest)"
    unfolding ud by (rule run_updates_updated [OF assms(4)])
  have m: "exec pick ?I (exec pick ?U tabs) ?dest
        = exec pick ?U tabs ?dest
          @ map (project ?cols)
              (filter (\<lambda>inc. \<not> list_ex (\<lambda>atual. same_key key_column atual inc) (tabs ?dest))
                 (exec pick ?U tabs ?inc))"
  proof -
    have "exec pick ?I (exec pick ?U tabs) ?dest
            = run_inserts ?cols key_column (exec pick ?U tabs ?dest) (exec pick ?U tabs ?inc)"
      unfolding exec_inserts_stmt by simp
    also have "\<dots> = run_inserts ?cols key_column
                      (run_updates pick ?cols key_column (tabs ?dest) (tabs ?inc))
                      (exec pick ?U tabs ?inc)"
      unfolding ud by (rule refl)
    also have "\<dots> = run_updates pick ?cols key_column (tabs ?dest) (tabs ?inc)
          @ map (project ?cols)
              (filter (\<lambda>inc. \<not> list_ex (\<lambda>atual. same_key key_column atual inc) (tabs ?dest))
                 (exec pick ?U tabs ?inc))"
      by (rule merge_rows [OF assms(4)])
    finally show ?thesis unfolding ud .
  qed
  have s: "?inc \<noteq> ?dest \<longrightarrow> exec pick ?U tabs ?inc = tabs ?inc"
    unfolding u by simp
  show ?thesis
    by (intro exI [of _ ?before] exI [of _ ?after] conjI) (fact b t nb ne g u i l m s)+
qed

lemma sample_inc: "inc_table ''stg'' None ''pessoa'' = ''stg.pessoa_alteracoes''"
  by (simp add: inc_table_def truthy_def)

theorem update_then_insert_missing_witness:
  "(conn_type sample_db = ''mssql'' \<or> conn_type sample_db = ''postgres'')
   \<and> get_first sample_db Dest (table_rows_count_sql (''stg'' @ ''.'' @ ''pessoa'') None) \<noteq> VInt 0
   \<and> build_filter_condition (get_first sample_db Dest) (''stg'' @ ''.'' @ ''pessoa'')
        (Some ''dataalteracao'') ''id''
       = Inr (''2021-03-07 09:05:00.123'',
              ''dataalteracao > '' @ [CHR 0x27] @ ''2021-03-07 09:05:00.123'' @ [CHR 0x27])
   \<and> fst (build_incremental_sqls ''stg.pessoa'' ''stg.pessoa_alteracoes'' ''id'' [''id'', ''nome''])
       = nl @ sp 12 @ ''UPDATE stg.pessoa SET id = orig.id, nome = orig.nome'' @ nl
         @ sp 12 @ ''FROM stg.pessoa_alteracoes orig'' @ nl
         @ sp 12 @ ''WHERE orig.id = stg.pessoa.id'' @ nl
         @ sp 12
   \<and> map (\<lambda>row. map row [''id'', ''nome''])
        (exec first_joined
           (inserts_stmt ''stg.pessoa'' ''stg.pessoa_alteracoes'' ''id'' [''id'', ''nome''])
           (exec first_joined
              (updates_stmt ''stg.pessoa'' ''stg.pessoa_alteracoes'' ''id'' [''id'', ''nome''])
              people)
           ''stg.pessoa'')
       = [[VInt 1, VStr ''ana''], [VInt 2, VStr ''bia''], [VInt 3, VStr ''caio'']]"
proof -
  have c: "conn_type sample_db = ''mssql'' \<or> conn_type sample_db = ''postgres''"
    by (simp add: sample_db_def)
  have n: "get_first sample_db Dest (table_rows_count_sql (''stg'' @ ''.'' @ ''pessoa'') None) \<noteq> VInt 0"
    using sample_count by (simp add: table_rows_count_sql_def)
  have f: "build_filter_condition (get_first sample_db Dest) (''stg'' @ ''.'' @ ''pessoa'')
        (Some ''dataalteracao'') ''id''
       = Inr (''2021-03-07 09:05:00.123'',
              ''dataalteracao > '' @ [CHR 0x27] @ ''2021-03-07 09:05:00.123'' @ [CHR 0x27])"
    using sample_filter by simp
  have p: "\<forall>d joined. joined \<noteq> [] \<longrightarrow> first_joined d joined \<in> set joined"
    by (simp add: first_joined_def)
  have cols: "table_cols sample_db = [''id'', ''nome'']" by (simp add: sample_db_def)
  have dest: "''stg'' @ ''.'' @ ''pessoa'' = ''stg.pessoa''" by simp
  from update_then_insert_missing [OF c n f p, where increment_schema = None and tabs = people]
  have b: "build_incremental_sqls ''stg.pessoa'' ''stg.pessoa_alteracoes'' ''id'' [''id'', ''nome'']
        = (render (updates_stmt ''stg.pessoa'' ''stg.pessoa_alteracoes'' ''id'' [''id'', ''nome'']),
           render (inserts_stmt ''stg.pessoa'' ''stg.pessoa_alteracoes'' ''id'' [''id'', ''nome'']))"
    and u: "exec first_joined
              (updates_stmt ''stg.pessoa'' ''stg.pessoa_alteracoes'' ''id'' [''id'', ''nome'']) people
        = people(''stg.pessoa'' :=
                 run_updates first_joined [''id'', ''nome''] ''id''
                   (people ''stg.pessoa'') (people ''stg.pessoa_alteracoes''))"
    and m: "exec first_joined
          (inserts_stmt ''stg.pessoa'' ''stg.pessoa_alteracoes'' ''id'' [''id'', ''nome''])
          (exec first_joined
             (updates_stmt ''stg.pessoa'' ''stg.pessoa_alteracoes'' ''id'' [''id'', ''nome''])
             people)
          ''stg.pessoa''
        = exec first_joined
            (updates_stmt ''stg.pessoa'' ''stg.pessoa_alteracoes'' ''id'' [''id'', ''nome''])
            people ''stg.pessoa''
          @ map (project [''id'', ''nome''])
              (filter (\<lambda>inc. \<not> list_ex (\<lambda>atual. same_key ''id'' atual inc) (people ''stg.pessoa''))
                 (exec first_joined
                    (updates_stmt ''stg.pessoa'' ''stg.pessoa_alteracoes'' ''id'' [''id'', ''nome''])
                    people ''stg.pessoa_alteracoes''))"
    unfolding sample_inc cols dest by blast+
  have b': "fst (build_incremental_sqls ''stg.pessoa'' ''stg.pessoa_alteracoes'' ''id''
                   [''id'', ''nome''])
       = nl @ sp 12 @ ''UPDATE stg.pessoa SET id = orig.id, nome = orig.nome'' @ nl
         @ sp 12 @ ''FROM stg.pessoa_alteracoes orig'' @ nl
         @ sp 12 @ ''WHERE orig.id = stg.pessoa.id'' @ nl
         @ sp 12"
    unfolding b by (simp add: updates_stmt_def)
  have m': "map (\<lambda>row. map row [''id'', ''nome''])
        (exec first_joined
           (inserts_stmt ''stg.pessoa'' ''stg.pessoa_alteracoes'' ''id'' [''id'', ''nome''])
           (exec first_joined
              (updates_stmt ''stg.pessoa'' ''stg.pessoa_alteracoes'' ''id'' [''id'', ''nome''])
              people)
           ''stg.pessoa'')
       = [[VInt 1, VStr ''ana''], [VInt 2, VStr ''bia''], [VInt 3, VStr ''caio'']]"
    apply (subst m)
    apply (simp only: u)
    apply (simp add: people_def run_updates_def same_key_def sql_eq_def person_def
             set_columns_def project_def first_joined_def)
    done
  show ?thesis by (intro conjI) (fact c n f b' m')+
qed

end
